theory Spec2Isabelle
  imports Complex_Main "HOL-Library.Log_Nat"
begin

section \<open>Dada Bucks: the store of \<^verbatim>\<open>src/store/dadaStore.ts\<close>\<close>

text \<open>
  The store is a single mutable snapshot (\<^verbatim>\<open>DadaState\<close>) with actions that read it
  through \<^verbatim>\<open>get()\<close> and replace parts of it through \<^verbatim>\<open>set(...)\<close>. Every action is
  modelled as a function from the state before to the result value and the state after.

  Conventions of the embedding:
  \<^item> A JavaScript \<^verbatim>\<open>number\<close> that holds an amount of currency or a counter is an
    \<^typ>\<open>int\<close>: every amount entering the store comes from \<^verbatim>\<open>parseInt\<close> or from an
    integer literal, and sums and differences of integers stay exact in a double far
    beyond the vault's range. The one place where the source leaves the integers,
    \<^verbatim>\<open>savingsBalance * 0.01\<close> and what is computed from it, is done in binary64
    arithmetic: each operation yields the exact rational result rounded to the nearest
    number with 53 significant bits, ties to the even one (\<open>toDouble\<close>). The exponent
    range of binary64 (overflow, subnormal numbers) is not modelled.
  \<^item> An instant (\<^verbatim>\<open>Date\<close>) is its number of milliseconds since the epoch. A calendar
    date string \<^verbatim>\<open>YYYY-MM-DD\<close> is the number of the day it names (days since the epoch):
    the source only compares such strings for equality and parses them back into dates.
    Local time is UTC shifted by a fixed offset; daylight saving changes are not modelled.
  \<^item> The clock and \<^verbatim>\<open>Math.random\<close> are inputs of every action (\<open>Env\<close>).
  \<^item> Message and description texts are template strings; each template is a constructor
    carrying the interpolated values.
  \<^item> A \<^verbatim>\<open>TypeError\<close> (reading \<^verbatim>\<open>.id\<close> of \<^verbatim>\<open>undefined\<close> when the list of children is
    empty) is the value \<open>None\<close>.
  \<^item> Optional fields that the store never writes (\<^verbatim>\<open>taskId\<close>, \<^verbatim>\<open>spendItemId\<close>,
    \<^verbatim>\<open>approvedBy\<close>, \<^verbatim>\<open>respondedBy\<close>, the description of a spend item) are left out.
\<close>

subsection \<open>Types (\<^verbatim>\<open>src/types\<close>)\<close>

datatype UserRole = parent | child

record ChildProfile =
  cp_id :: string
  cp_name :: string
  cp_avatar :: string
  cp_balance :: int
  cp_savings :: int
  cp_savingsInterestAccrued :: int
  cp_totalEarned :: int
  cp_totalSpent :: int
  cp_strikes :: int
  cp_pendingEarnings :: int
  cp_lastInterestDate :: int

datatype TaskCategory = chores | hygiene | learning | helping | other

record Task =
  t_id :: string
  t_name :: string
  t_icon :: string
  t_payout :: int
  t_dailyMax :: int
  t_completions :: int
  t_isActive :: bool
  t_category :: TaskCategory

datatype SpendCategory = screenTime | treats | activities | games

record SpendItem =
  si_id :: string
  si_name :: string
  si_icon :: string
  si_cost :: int
  si_quantity :: int
  si_maxQuantity :: int
  si_category :: SpendCategory

datatype TransactionType =
  earn | spend | refund | strike_penalty | interest | savings_deposit | savings_withdrawal

datatype Description =
    DescForfeited
  | DescDailyDeposit int
  | DescSavingsInterest int
  | DescSpent "string list"
  | DescMovedToSavings int
  | DescWithdrewFromSavings int

record Transaction =
  x_id :: string
  x_childId :: string
  x_type :: TransactionType
  x_amount :: int
  x_description :: Description
  x_timestamp :: int

record RequestItem =
  ri_spendItemId :: string
  ri_name :: string
  ri_icon :: string
  ri_cost :: int
  ri_quantity :: int

datatype RequestStatus = pending | approved | denied

record SpendRequest =
  r_id :: string
  r_childId :: string
  r_items :: "RequestItem list"
  r_totalCost :: int
  r_status :: RequestStatus
  r_requestedAt :: int
  r_respondedAt :: "int option"

record ApprovedRequestNotification =
  n_requestId :: string
  n_items :: "RequestItem list"
  n_totalCost :: int
  n_approvedAt :: int
  n_shownToChild :: bool

record Strike =
  s_id :: string
  s_childId :: string
  s_reason :: string
  s_timestamp :: int
  s_day :: int

record Vault =
  v_balance :: int
  v_maxBalance :: int
  v_dailyAllowance :: int

definition VAULT_MAX :: int where "VAULT_MAX = 1000"
definition DAILY_SPEND_LIMIT :: int where "DAILY_SPEND_LIMIT = 40"
definition MAX_STRIKES :: nat where "MAX_STRIKES = 3"
definition RESET_HOUR :: int where "RESET_HOUR = 22"

subsection \<open>Store state, environment and results\<close>

record DadaState =
  currentView :: UserRole
  children :: "ChildProfile list"
  currentChildId :: string
  vault :: Vault
  tasks :: "Task list"
  spendItems :: "SpendItem list"
  transactions :: "Transaction list"
  pendingRequests :: "SpendRequest list"
  requestHistory :: "SpendRequest list"
  approvedNotifications :: "ApprovedRequestNotification list"
  strikes :: "Strike list"
  isParentLocked :: bool
  lastResetDate :: int

text \<open>
  \<open>now\<close> is the instant read by \<^verbatim>\<open>new Date()\<close> during the action, \<open>tzOffset\<close> the
  offset of local time from UTC in milliseconds, and \<open>generateId k\<close> the string returned
  by the \<open>k\<close>-th call of \<^verbatim>\<open>generateId()\<close> during the action.
\<close>

record Env =
  now :: int
  tzOffset :: int
  generateId :: "nat \<Rightarrow> string"

datatype Message =
    MsgTaskNotFound
  | MsgTaskNotActive
  | MsgCannotEarn
  | MsgDailyLimit int
  | MsgVaultEmpty
  | MsgGreatJob int
  | MsgNoCompletions
  | MsgUndone
  | MsgMaxStrikes
  | MsgForfeited int
  | MsgStrike nat nat
  | MsgAlreadyPending
  | MsgNotEnough int int
  | MsgRequestSent
  | MsgRequestNotFound
  | MsgChildNotFound
  | MsgNoLongerEnough
  | MsgApproved
  | MsgMustBePositive
  | MsgNotEnoughBalance int
  | MsgNotEnoughSavings int
  | MsgMoved int
  | MsgWithdrew int

record OpResult =
  success :: bool
  message :: Message
  earned :: "int option"
  forfeited :: "int option"
  requestId :: "string option"

definition failure :: "Message \<Rightarrow> OpResult" where
  "failure m = \<lparr>success = False, message = m, earned = None, forfeited = None, requestId = None\<rparr>"

definition succeeded :: "Message \<Rightarrow> OpResult" where
  "succeeded m = \<lparr>success = True, message = m, earned = None, forfeited = None, requestId = None\<rparr>"

record ResetResult =
  didReset :: bool
  earningsDeposited :: "int option"
  interestEarned :: "int option"

subsection \<open>Helper functions\<close>

definition MS_PER_HOUR :: int where "MS_PER_HOUR = 3600000"
definition MS_PER_DAY :: int where "MS_PER_DAY = 24 * MS_PER_HOUR"

text \<open>\<^verbatim>\<open>new Date().toISOString().split('T')[0]\<close>: the UTC calendar day of the clock.\<close>

definition getTodayDate :: "Env \<Rightarrow> int" where
  "getTodayDate e = now e div MS_PER_DAY"

text \<open>
  The instant at which local time reads hour \<open>h\<close> of day \<open>d\<close>:
  \<^verbatim>\<open>new Date(d + 'T' + h + ':00:00')\<close>, and \<^verbatim>\<open>setHours(h, 0, 0, 0)\<close> on a date of local day
  \<open>d\<close>.
\<close>

definition localInstant :: "Env \<Rightarrow> int \<Rightarrow> int \<Rightarrow> int" where
  "localInstant e d h = d * MS_PER_DAY + h * MS_PER_HOUR - tzOffset e"

definition localDay :: "Env \<Rightarrow> int \<Rightarrow> int" where
  "localDay e t = (t + tzOffset e) div MS_PER_DAY"

definition shouldResetToday :: "Env \<Rightarrow> int \<Rightarrow> bool" where
  "shouldResetToday e lastResetDate' =
     (let lastReset = localInstant e lastResetDate' RESET_HOUR;
          todayReset = localInstant e (localDay e (now e)) RESET_HOUR
      in if now e \<ge> todayReset \<and> lastReset < todayReset then True
         else
           let yesterdayReset = localInstant e (localDay e (now e) - 1) RESET_HOUR
           in if lastReset < yesterdayReset then True else False)"

text \<open>\<^verbatim>\<open>children.find((c) => c.id === currentChildId) || children[0]\<close>\<close>

definition getCurrentChild :: "DadaState \<Rightarrow> ChildProfile option" where
  "getCurrentChild st =
     (case find (\<lambda>c. cp_id c = currentChildId st) (children st) of
        Some c \<Rightarrow> Some c
      | None \<Rightarrow> (case children st of [] \<Rightarrow> None | c # _ \<Rightarrow> Some c))"

text \<open>
  \<^verbatim>\<open>strikes.filter((s) => s.day === today && s.childId === child.id).length\<close>. With no
  child, \<^verbatim>\<open>child.id\<close> throws as soon as the first conjunct holds for some strike.
\<close>

definition todayStrikeCount :: "int \<Rightarrow> ChildProfile option \<Rightarrow> Strike list \<Rightarrow> nat option" where
  "todayStrikeCount today ch ss =
     (case ch of
        Some c \<Rightarrow> Some (length (filter (\<lambda>s. s_day s = today \<and> s_childId s = cp_id c) ss))
      | None \<Rightarrow> if list_ex (\<lambda>s. s_day s = today) ss then None else Some 0)"

text \<open>
  The test \<^verbatim>\<open>c.id === child.id\<close> of the \<^verbatim>\<open>children.map\<close> callbacks. It is only evaluated
  on an element of \<^verbatim>\<open>children\<close>, so never when the acting child is \<^verbatim>\<open>undefined\<close>.
\<close>

definition isChild :: "ChildProfile option \<Rightarrow> ChildProfile \<Rightarrow> bool" where
  "isChild ch c = (case ch of Some c' \<Rightarrow> cp_id c = cp_id c' | None \<Rightarrow> False)"

subsection \<open>Task completion\<close>

definition completeTask :: "Env \<Rightarrow> string \<Rightarrow> DadaState \<Rightarrow> (OpResult \<times> DadaState) option" where
  "completeTask e taskId st =
     (let ch = getCurrentChild st in
      case find (\<lambda>t. t_id t = taskId) (tasks st) of
        None \<Rightarrow> Some (failure MsgTaskNotFound, st)
      | Some task \<Rightarrow>
          if \<not> t_isActive task then Some (failure MsgTaskNotActive, st)
          else
            (case todayStrikeCount (getTodayDate e) ch (strikes st) of
              None \<Rightarrow> None
            | Some todayStrikes \<Rightarrow>
                if todayStrikes \<ge> MAX_STRIKES then Some (failure MsgCannotEarn, st)
                else if t_completions task \<ge> t_dailyMax task
                  then Some (failure (MsgDailyLimit (t_dailyMax task)), st)
                else if v_balance (vault st) < t_payout task then Some (failure MsgVaultEmpty, st)
                else
                  let earned' = t_payout task in
                  Some (\<lparr>success = True, message = MsgGreatJob earned', earned = Some earned',
                         forfeited = None, requestId = None\<rparr>,
                    st\<lparr>tasks :=
                         map (\<lambda>t. if t_id t = taskId
                                   then t\<lparr>t_completions := t_completions t + 1\<rparr> else t)
                           (tasks st),
                       children :=
                         map (\<lambda>c. if isChild ch c
                                   then c\<lparr>cp_pendingEarnings := cp_pendingEarnings c + earned'\<rparr>
                                   else c)
                           (children st),
                       vault := (vault st)\<lparr>v_balance := v_balance (vault st) - earned'\<rparr>\<rparr>)))"

definition undoTaskCompletion :: "string \<Rightarrow> DadaState \<Rightarrow> OpResult \<times> DadaState" where
  "undoTaskCompletion taskId st =
     (let ch = getCurrentChild st in
      case find (\<lambda>t. t_id t = taskId) (tasks st) of
        None \<Rightarrow> (failure MsgNoCompletions, st)
      | Some task \<Rightarrow>
          if t_completions task \<le> 0 then (failure MsgNoCompletions, st)
          else
            let earned' = t_payout task in
            (succeeded MsgUndone,
             st\<lparr>tasks :=
                  map (\<lambda>t. if t_id t = taskId
                            then t\<lparr>t_completions := t_completions t - 1\<rparr> else t)
                    (tasks st),
                children :=
                  map (\<lambda>c. if isChild ch c
                            then c\<lparr>cp_pendingEarnings := max 0 (cp_pendingEarnings c - earned')\<rparr>
                            else c)
                    (children st),
                vault :=
                  (vault st)\<lparr>v_balance := min VAULT_MAX (v_balance (vault st) + earned')\<rparr>\<rparr>))"

subsection \<open>Strike system\<close>

definition addStrike :: "Env \<Rightarrow> string \<Rightarrow> DadaState \<Rightarrow> (OpResult \<times> DadaState) option" where
  "addStrike e reason st =
     (case getCurrentChild st of
        None \<Rightarrow> None
      | Some ch \<Rightarrow>
          let today = getTodayDate e;
              todayStrikes =
                length (filter (\<lambda>s. s_day s = today \<and> s_childId s = cp_id ch) (strikes st))
          in
          if todayStrikes \<ge> MAX_STRIKES then Some (failure MsgMaxStrikes, st)
          else
            let newStrike =
                  \<lparr>s_id = ''strike-'' @ generateId e 0, s_childId = cp_id ch, s_reason = reason,
                   s_timestamp = now e, s_day = today\<rparr>;
                newStrikeCount = todayStrikes + 1
            in
            if newStrikeCount \<ge> MAX_STRIKES then
              let forfeited' = cp_pendingEarnings ch;
                  penaltyTransaction =
                    \<lparr>x_id = ''txn-'' @ generateId e 1, x_childId = cp_id ch,
                     x_type = strike_penalty, x_amount = - forfeited',
                     x_description = DescForfeited, x_timestamp = now e\<rparr>
              in
              Some (\<lparr>success = True, message = MsgForfeited forfeited', earned = None,
                     forfeited = Some forfeited', requestId = None\<rparr>,
                st\<lparr>strikes := strikes st @ [newStrike],
                   children :=
                     map (\<lambda>c. if cp_id c = cp_id ch then c\<lparr>cp_pendingEarnings := 0\<rparr> else c)
                       (children st),
                   vault :=
                     (vault st)\<lparr>v_balance := min VAULT_MAX (v_balance (vault st) + forfeited')\<rparr>,
                   transactions :=
                     (if forfeited' > 0 then penaltyTransaction # transactions st
                      else transactions st)\<rparr>)
            else
              Some (succeeded (MsgStrike newStrikeCount (MAX_STRIKES - newStrikeCount)),
                st\<lparr>strikes := strikes st @ [newStrike]\<rparr>))"

definition removeStrike :: "string \<Rightarrow> DadaState \<Rightarrow> DadaState" where
  "removeStrike strikeId st = st\<lparr>strikes := filter (\<lambda>s. s_id s \<noteq> strikeId) (strikes st)\<rparr>"

definition resetStrikes :: "DadaState \<Rightarrow> DadaState" where
  "resetStrikes st = st\<lparr>strikes := []\<rparr>"

subsection \<open>Savings\<close>

text \<open>
  The amount is checked before the child is read, so without a child only an amount
  above 0 throws.
\<close>

definition depositToSavings :: "Env \<Rightarrow> int \<Rightarrow> DadaState \<Rightarrow> (OpResult \<times> DadaState) option" where
  "depositToSavings e amount st =
     (if amount \<le> 0 then Some (failure MsgMustBePositive, st)
      else
        case getCurrentChild st of
          None \<Rightarrow> None
        | Some ch \<Rightarrow>
            if amount > cp_balance ch
            then Some (failure (MsgNotEnoughBalance (cp_balance ch)), st)
            else
              let transaction =
                    \<lparr>x_id = ''txn-'' @ generateId e 0, x_childId = cp_id ch,
                     x_type = savings_deposit, x_amount = - amount,
                     x_description = DescMovedToSavings amount, x_timestamp = now e\<rparr>
              in
              Some (succeeded (MsgMoved amount),
                st\<lparr>children :=
                     map (\<lambda>c. if cp_id c = cp_id ch
                               then c\<lparr>cp_balance := cp_balance c - amount,
                                      cp_savings := cp_savings c + amount\<rparr>
                               else c)
                       (children st),
                   transactions := transaction # transactions st\<rparr>))"

definition withdrawFromSavings :: "Env \<Rightarrow> int \<Rightarrow> DadaState \<Rightarrow> (OpResult \<times> DadaState) option" where
  "withdrawFromSavings e amount st =
     (if amount \<le> 0 then Some (failure MsgMustBePositive, st)
      else
        case getCurrentChild st of
          None \<Rightarrow> None
        | Some ch \<Rightarrow>
            if amount > cp_savings ch
            then Some (failure (MsgNotEnoughSavings (cp_savings ch)), st)
            else
              let transaction =
                    \<lparr>x_id = ''txn-'' @ generateId e 0, x_childId = cp_id ch,
                     x_type = savings_withdrawal, x_amount = amount,
                     x_description = DescWithdrewFromSavings amount, x_timestamp = now e\<rparr>
              in
              Some (succeeded (MsgWithdrew amount),
                st\<lparr>children :=
                     map (\<lambda>c. if cp_id c = cp_id ch
                               then c\<lparr>cp_balance := cp_balance c + amount,
                                      cp_savings := cp_savings c - amount\<rparr>
                               else c)
                       (children st),
                   transactions := transaction # transactions st\<rparr>))"

text \<open>
  Binary64 numbers. \<open>roundHalfEven\<close> is the nearest integer, the even one of two that are
  equally near. \<open>binaryExponent x\<close> is the \<open>e\<close> with \<open>2 ^ e \<le> \<bar>x\<bar> < 2 ^ (e + 1)\<close>, found
  from the bit lengths of numerator and denominator. The doubles between \<open>2 ^ e\<close> and
  \<open>2 ^ (e + 1)\<close> are the multiples of \<open>2 ^ (e - 52)\<close>, and \<open>toDouble x\<close> is the one
  nearest to \<open>x\<close>.
\<close>

definition roundHalfEven :: "rat \<Rightarrow> int" where
  "roundHalfEven x =
     (let f = \<lfloor>x\<rfloor>; d = x - of_int f
      in if d < 1 / 2 then f else if 1 / 2 < d then f + 1 else if even f then f else f + 1)"

definition binaryExponent :: "rat \<Rightarrow> int" where
  "binaryExponent x =
     (let (p, q) = quotient_of \<bar>x\<bar>; e = bitlen p - bitlen q
      in if 2 powi e \<le> \<bar>x\<bar> then e else e - 1)"

definition toDouble :: "rat \<Rightarrow> rat" where
  "toDouble x =
     (if x = 0 then 0
      else let q = binaryExponent x - 52
           in of_int (roundHalfEven (x / 2 powi q)) * 2 powi q)"

record Interest =
  wholeAmount :: int
  newAccrued :: int

text \<open>
  The literal \<^verbatim>\<open>0.01\<close> is the double nearest to \<open>1 / 100\<close>; the argument is a double
  holding an integer; product, difference and the product with 100 are rounded as they
  are computed. \<^verbatim>\<open>Math.floor\<close> is \<open>floor\<close>; \<^verbatim>\<open>Math.round\<close> is the nearest integer, the
  greater one of two that are equally near, as \<open>round\<close> is (\<open>round x = \<lfloor>x + 1/2\<rfloor>\<close>).
  Both are exact.
\<close>

definition calculateDailyInterest :: "int \<Rightarrow> Interest" where
  "calculateDailyInterest savingsBalance =
     (let dailyRate = toDouble (1 / 100);
          interest' = toDouble (toDouble (of_int savingsBalance) * dailyRate);
          wholeAmount' = \<lfloor>interest'\<rfloor>;
          fractionalPart = toDouble (interest' - of_int wholeAmount')
      in \<lparr>wholeAmount = wholeAmount', newAccrued = round (toDouble (fractionalPart * 100))\<rparr>)"

subsection \<open>Daily reset\<close>

text \<open>
  The variables that the callback of \<^verbatim>\<open>children.map\<close> updates as it goes:
  \<^verbatim>\<open>newTransactions\<close> (in push order), the two totals, and the number of identifiers
  drawn so far.
\<close>

record ResetAcc =
  newTransactions :: "Transaction list"
  totalEarningsDeposited :: int
  totalInterestEarned :: int
  idsDrawn :: nat

definition resetChild :: "Env \<Rightarrow> int \<Rightarrow> ChildProfile \<Rightarrow> ResetAcc \<Rightarrow> ChildProfile \<times> ResetAcc" where
  "resetChild e today c acc =
     (let pendingEarnings = cp_pendingEarnings c;
          deposit = pendingEarnings > 0;
          newBalance = (if deposit then cp_balance c + pendingEarnings else cp_balance c);
          newTotalEarned =
            (if deposit then cp_totalEarned c + pendingEarnings else cp_totalEarned c);
          acc1 =
            (if deposit then
               acc\<lparr>totalEarningsDeposited := totalEarningsDeposited acc + pendingEarnings,
                   newTransactions :=
                     newTransactions acc @
                       [\<lparr>x_id = ''txn-'' @ generateId e (idsDrawn acc), x_childId = cp_id c,
                         x_type = earn, x_amount = pendingEarnings,
                         x_description = DescDailyDeposit pendingEarnings,
                         x_timestamp = now e\<rparr>],
                   idsDrawn := Suc (idsDrawn acc)\<rparr>
             else acc);
          i = calculateDailyInterest (cp_savings c);
          pay = wholeAmount i > 0;
          newSavings = (if pay then cp_savings c + wholeAmount i else cp_savings c);
          acc2 =
            (if pay then
               acc1\<lparr>totalInterestEarned := totalInterestEarned acc1 + wholeAmount i,
                    newTransactions :=
                      newTransactions acc1 @
                        [\<lparr>x_id = ''txn-'' @ generateId e (idsDrawn acc1), x_childId = cp_id c,
                          x_type = interest, x_amount = wholeAmount i,
                          x_description = DescSavingsInterest (wholeAmount i),
                          x_timestamp = now e\<rparr>],
                    idsDrawn := Suc (idsDrawn acc1)\<rparr>
             else acc1)
      in (c\<lparr>cp_balance := newBalance, cp_savings := newSavings,
            cp_savingsInterestAccrued := newAccrued i, cp_pendingEarnings := 0,
            cp_totalEarned := newTotalEarned, cp_lastInterestDate := today\<rparr>,
          acc2))"

fun resetChildren ::
  "Env \<Rightarrow> int \<Rightarrow> ChildProfile list \<Rightarrow> ResetAcc \<Rightarrow> ChildProfile list \<times> ResetAcc" where
  "resetChildren e today [] acc = ([], acc)"
| "resetChildren e today (c # cs) acc =
     (let (c', acc1) = resetChild e today c acc;
          (cs', acc2) = resetChildren e today cs acc1
      in (c' # cs', acc2))"

definition checkAndPerformDailyReset :: "Env \<Rightarrow> DadaState \<Rightarrow> ResetResult \<times> DadaState" where
  "checkAndPerformDailyReset e st =
     (if \<not> shouldResetToday e (lastResetDate st)
      then (\<lparr>didReset = False, earningsDeposited = None, interestEarned = None\<rparr>, st)
      else
        let today = getTodayDate e;
            (updatedChildren, acc) =
              resetChildren e today (children st)
                \<lparr>newTransactions = [], totalEarningsDeposited = 0, totalInterestEarned = 0,
                 idsDrawn = 0\<rparr>;
            updatedTasks = map (\<lambda>task. task\<lparr>t_completions := 0\<rparr>) (tasks st);
            todayStrikes = filter (\<lambda>s. s_day s = today) (strikes st)
        in (\<lparr>didReset = True, earningsDeposited = Some (totalEarningsDeposited acc),
             interestEarned = Some (totalInterestEarned acc)\<rparr>,
            st\<lparr>children := updatedChildren, tasks := updatedTasks, strikes := todayStrikes,
               lastResetDate := today,
               transactions := newTransactions acc @ transactions st\<rparr>))"

subsection \<open>Spend requests\<close>

text \<open>
  With no child the action always throws: in the filter callback when there is a
  pending request, otherwise at \<^verbatim>\<open>child.balance\<close>.
\<close>

definition createSpendRequest ::
  "Env \<Rightarrow> RequestItem list \<Rightarrow> DadaState \<Rightarrow> (OpResult \<times> DadaState) option" where
  "createSpendRequest e items st =
     (case getCurrentChild st of
        None \<Rightarrow> None
      | Some ch \<Rightarrow>
          let existingPending =
                filter (\<lambda>r. r_childId r = cp_id ch \<and> r_status r = pending) (pendingRequests st)
          in
          if length existingPending > 0 then Some (failure MsgAlreadyPending, st)
          else
            let totalCost = foldl (\<lambda>sum item. sum + ri_cost item * ri_quantity item) 0 items in
            if totalCost > cp_balance ch
            then Some (failure (MsgNotEnough (cp_balance ch) totalCost), st)
            else
              let newRequest =
                    \<lparr>r_id = ''req-'' @ generateId e 0, r_childId = cp_id ch, r_items = items,
                     r_totalCost = totalCost, r_status = pending, r_requestedAt = now e,
                     r_respondedAt = None\<rparr>
              in
              Some (\<lparr>success = True, message = MsgRequestSent, earned = None, forfeited = None,
                     requestId = Some (r_id newRequest)\<rparr>,
                st\<lparr>pendingRequests := pendingRequests st @ [newRequest]\<rparr>))"

definition cancelSpendRequest :: "string \<Rightarrow> DadaState \<Rightarrow> DadaState" where
  "cancelSpendRequest requestId' st =
     st\<lparr>pendingRequests := filter (\<lambda>r. r_id r \<noteq> requestId') (pendingRequests st)\<rparr>"

definition denyRequest :: "Env \<Rightarrow> string \<Rightarrow> DadaState \<Rightarrow> DadaState" where
  "denyRequest e requestId' st =
     (case find (\<lambda>r. r_id r = requestId') (pendingRequests st) of
        None \<Rightarrow> st
      | Some request \<Rightarrow>
          let updatedRequest = request\<lparr>r_status := denied, r_respondedAt := Some (now e)\<rparr> in
          st\<lparr>pendingRequests := filter (\<lambda>r. r_id r \<noteq> requestId') (pendingRequests st),
             requestHistory := updatedRequest # requestHistory st\<rparr>)"

definition approveRequest :: "Env \<Rightarrow> string \<Rightarrow> DadaState \<Rightarrow> OpResult \<times> DadaState" where
  "approveRequest e requestId' st =
     (case find (\<lambda>r. r_id r = requestId') (pendingRequests st) of
        None \<Rightarrow> (failure MsgRequestNotFound, st)
      | Some request \<Rightarrow>
          (case find (\<lambda>c. cp_id c = r_childId request) (children st) of
             None \<Rightarrow> (failure MsgChildNotFound, st)
           | Some ch \<Rightarrow>
               if r_totalCost request > cp_balance ch
               then (failure MsgNoLongerEnough, denyRequest e requestId' st)
               else
                 let transaction =
                       \<lparr>x_id = ''txn-'' @ generateId e 0, x_childId = cp_id ch, x_type = spend,
                        x_amount = - r_totalCost request,
                        x_description = DescSpent (map ri_name (r_items request)),
                        x_timestamp = now e\<rparr>;
                     updatedRequest =
                       request\<lparr>r_status := approved, r_respondedAt := Some (now e)\<rparr>;
                     notification =
                       \<lparr>n_requestId = r_id request, n_items = r_items request,
                        n_totalCost = r_totalCost request, n_approvedAt = now e,
                        n_shownToChild = False\<rparr>
                 in
                 (succeeded MsgApproved,
                  st\<lparr>pendingRequests :=
                       filter (\<lambda>r. r_id r \<noteq> requestId') (pendingRequests st),
                     requestHistory := updatedRequest # requestHistory st,
                     approvedNotifications := notification # approvedNotifications st,
                     children :=
                       map (\<lambda>c. if cp_id c = cp_id ch
                                 then c\<lparr>cp_balance := cp_balance c - r_totalCost request,
                                        cp_totalSpent := cp_totalSpent c + r_totalCost request\<rparr>
                                 else c)
                         (children st),
                     vault :=
                       (vault st)\<lparr>v_balance :=
                         min VAULT_MAX (v_balance (vault st) + r_totalCost request)\<rparr>,
                     transactions := transaction # transactions st\<rparr>)))"

subsection \<open>Vault management\<close>

definition addToVault :: "int \<Rightarrow> DadaState \<Rightarrow> DadaState" where
  "addToVault amount st =
     st\<lparr>vault := (vault st)\<lparr>v_balance := min VAULT_MAX (v_balance (vault st) + amount)\<rparr>\<rparr>"

definition removeFromVault :: "int \<Rightarrow> DadaState \<Rightarrow> bool \<times> DadaState" where
  "removeFromVault amount st =
     (if v_balance (vault st) < amount then (False, st)
      else (True, st\<lparr>vault := (vault st)\<lparr>v_balance := v_balance (vault st) - amount\<rparr>\<rparr>))"

subsection \<open>The actions as one transition function\<close>

text \<open>
  The actions modelled above, each with its arguments and the environment it runs in.
  \<open>act\<close> keeps the state after the action and forgets the result value; \<open>None\<close> is a
  thrown \<^verbatim>\<open>TypeError\<close>, which ends a run.
\<close>

datatype Action =
    CompleteTask Env string
  | UndoTaskCompletion string
  | AddStrike Env string
  | RemoveStrike string
  | ResetStrikes
  | DailyReset Env
  | DepositToSavings Env int
  | WithdrawFromSavings Env int
  | CreateSpendRequest Env "RequestItem list"
  | CancelSpendRequest string
  | ApproveRequest Env string
  | DenyRequest Env string
  | AddToVault int
  | RemoveFromVault int

fun act :: "Action \<Rightarrow> DadaState \<Rightarrow> DadaState option" where
  "act (CompleteTask e taskId) st = map_option snd (completeTask e taskId st)"
| "act (UndoTaskCompletion taskId) st = Some (snd (undoTaskCompletion taskId st))"
| "act (AddStrike e reason) st = map_option snd (addStrike e reason st)"
| "act (RemoveStrike strikeId) st = Some (removeStrike strikeId st)"
| "act ResetStrikes st = Some (resetStrikes st)"
| "act (DailyReset e) st = Some (snd (checkAndPerformDailyReset e st))"
| "act (DepositToSavings e amount) st = map_option snd (depositToSavings e amount st)"
| "act (WithdrawFromSavings e amount) st = map_option snd (withdrawFromSavings e amount st)"
| "act (CreateSpendRequest e items) st = map_option snd (createSpendRequest e items st)"
| "act (CancelSpendRequest rid) st = Some (cancelSpendRequest rid st)"
| "act (ApproveRequest e rid) st = Some (snd (approveRequest e rid st))"
| "act (DenyRequest e rid) st = Some (denyRequest e rid st)"
| "act (AddToVault amount) st = Some (addToVault amount st)"
| "act (RemoveFromVault amount) st = Some (snd (removeFromVault amount st))"

fun actAll :: "Action list \<Rightarrow> DadaState \<Rightarrow> DadaState option" where
  "actAll [] st = Some st"
| "actAll (a # as) st = (case act a st of None \<Rightarrow> None | Some st' \<Rightarrow> actAll as st')"

subsection \<open>Observations used in the statements\<close>

text \<open>The acting child's number of strikes for the current day.\<close>

definition strikeCountToday :: "Env \<Rightarrow> ChildProfile \<Rightarrow> DadaState \<Rightarrow> nat" where
  "strikeCountToday e ch st =
     length (filter (\<lambda>s. s_day s = getTodayDate e \<and> s_childId s = cp_id ch) (strikes st))"

text \<open>The record that \<open>addStrike\<close> appends to the strikes.\<close>

definition strikeRecord :: "Env \<Rightarrow> ChildProfile \<Rightarrow> string \<Rightarrow> Strike" where
  "strikeRecord e ch reason =
     \<lparr>s_id = ''strike-'' @ generateId e 0, s_childId = cp_id ch, s_reason = reason,
      s_timestamp = now e, s_day = getTodayDate e\<rparr>"

text \<open>The currency in circulation: the vault plus what every child holds.\<close>

definition holdings :: "ChildProfile \<Rightarrow> int" where
  "holdings c = cp_balance c + cp_savings c + cp_pendingEarnings c"

definition totalCurrency :: "DadaState \<Rightarrow> int" where
  "totalCurrency st = v_balance (vault st) + sum_list (map holdings (children st))"

text \<open>Every child has an id of its own, and there is a child to act for.\<close>

definition childrenOk :: "DadaState \<Rightarrow> bool" where
  "childrenOk st = (children st \<noteq> [] \<and> distinct (map cp_id (children st)))"

text \<open>The five actions of the earn / undo / forfeit / approve / deny cycle.\<close>

fun isLedgerAction :: "Action \<Rightarrow> bool" where
  "isLedgerAction (CompleteTask e taskId) = True"
| "isLedgerAction (UndoTaskCompletion taskId) = True"
| "isLedgerAction (AddStrike e reason) = True"
| "isLedgerAction (ApproveRequest e rid) = True"
| "isLedgerAction (DenyRequest e rid) = True"
| "isLedgerAction _ = False"

text \<open>
  \<open>clampFree a st\<close>: running \<open>a\<close> in \<open>st\<close>, no \<^verbatim>\<open>Math.min(VAULT_MAX, ...)\<close> and no
  \<^verbatim>\<open>Math.max(0, ...)\<close> that is evaluated changes its argument.
\<close>

fun clampFree :: "Action \<Rightarrow> DadaState \<Rightarrow> bool" where
  "clampFree (UndoTaskCompletion taskId) st =
     (case find (\<lambda>t. t_id t = taskId) (tasks st) of
        None \<Rightarrow> True
      | Some task \<Rightarrow>
          t_completions task \<le> 0 \<or>
          (v_balance (vault st) + t_payout task \<le> VAULT_MAX \<and>
           (case getCurrentChild st of
              None \<Rightarrow> True
            | Some ch \<Rightarrow> t_payout task \<le> cp_pendingEarnings ch)))"
| "clampFree (AddStrike e reason) st =
     (case getCurrentChild st of
        None \<Rightarrow> True
      | Some ch \<Rightarrow>
          strikeCountToday e ch st + 1 \<noteq> MAX_STRIKES \<or>
          v_balance (vault st) + cp_pendingEarnings ch \<le> VAULT_MAX)"
| "clampFree (ApproveRequest e rid) st =
     (case find (\<lambda>r. r_id r = rid) (pendingRequests st) of
        None \<Rightarrow> True
      | Some request \<Rightarrow>
          (case find (\<lambda>c. cp_id c = r_childId request) (children st) of
             None \<Rightarrow> True
           | Some ch \<Rightarrow>
               r_totalCost request > cp_balance ch \<or>
               v_balance (vault st) + r_totalCost request \<le> VAULT_MAX))"
| "clampFree _ st = True"

fun clampFreeRun :: "Action list \<Rightarrow> DadaState \<Rightarrow> bool" where
  "clampFreeRun [] st = True"
| "clampFreeRun (a # as) st =
     (clampFree a st \<and> (case act a st of None \<Rightarrow> True | Some st' \<Rightarrow> clampFreeRun as st'))"

text \<open>The pending requests of one child.\<close>

definition pendingFor :: "string \<Rightarrow> DadaState \<Rightarrow> SpendRequest list" where
  "pendingFor cid st =
     filter (\<lambda>r. r_childId r = cid \<and> r_status r = pending) (pendingRequests st)"

text \<open>\<open>resolves rid a\<close>: the action approves, denies or cancels the request \<open>rid\<close>.\<close>

fun resolves :: "string \<Rightarrow> Action \<Rightarrow> bool" where
  "resolves rid (ApproveRequest e rid') = (rid' = rid)"
| "resolves rid (DenyRequest e rid') = (rid' = rid)"
| "resolves rid (CancelSpendRequest rid') = (rid' = rid)"
| "resolves rid _ = False"

subsection \<open>A small household for concrete runs\<close>

definition demoEnv :: Env where
  "demoEnv = \<lparr>now = 1700000000000, tzOffset = 0, generateId = (\<lambda>k. replicate (Suc k) CHR ''a'')\<rparr>"

definition demoChild :: ChildProfile where
  "demoChild =
     \<lparr>cp_id = ''child-1'', cp_name = ''Alex'', cp_avatar = ''A'', cp_balance = 50,
      cp_savings = 250, cp_savingsInterestAccrued = 0, cp_totalEarned = 300,
      cp_totalSpent = 0, cp_strikes = 0, cp_pendingEarnings = 0,
      cp_lastInterestDate = 19675\<rparr>"

definition demoTask :: Task where
  "demoTask =
     \<lparr>t_id = ''task-2'', t_name = ''Workbook page'', t_icon = ''W'', t_payout = 5,
      t_dailyMax = 7, t_completions = 0, t_isActive = True, t_category = learning\<rparr>"

definition demoItem :: RequestItem where
  "demoItem =
     \<lparr>ri_spendItemId = ''spend-1'', ri_name = ''Watch TV episode'', ri_icon = ''T'',
      ri_cost = 20, ri_quantity = 1\<rparr>"

definition demoRequest :: SpendRequest where
  "demoRequest =
     \<lparr>r_id = ''req-1'', r_childId = ''child-1'', r_items = [demoItem], r_totalCost = 20,
      r_status = pending, r_requestedAt = 1700000000000, r_respondedAt = None\<rparr>"

text \<open>
  One child who has earned 300 so far and holds all of it (50 to spend, 250 saved), a
  vault that has paid these 300 out, one task, nothing pending.
\<close>

definition demoState :: DadaState where
  "demoState =
     \<lparr>currentView = parent, children = [demoChild], currentChildId = ''child-1'',
      vault = \<lparr>v_balance = 700, v_maxBalance = 1000, v_dailyAllowance = 40\<rparr>,
      tasks = [demoTask], spendItems = [], transactions = [], pendingRequests = [],
      requestHistory = [], approvedNotifications = [], strikes = [],
      isParentLocked = False, lastResetDate = 19674\<rparr>"

text \<open>Three strikes against the child on the day of \<open>demoEnv\<close>.\<close>

definition demoStrike :: "string \<Rightarrow> Strike" where
  "demoStrike sid =
     \<lparr>s_id = sid, s_childId = ''child-1'', s_reason = ''shouting'',
      s_timestamp = 1700000000000, s_day = 19675\<rparr>"

definition demoStruckState :: DadaState where
  "demoStruckState =
     demoState\<lparr>strikes := [demoStrike ''strike-1'', demoStrike ''strike-2'', demoStrike ''strike-3'']\<rparr>"

text \<open>The child after one completion of the task, with two strikes today.\<close>

definition demoEarner :: ChildProfile where
  "demoEarner = demoChild\<lparr>cp_pendingEarnings := 5\<rparr>"

definition demoTwoStrikes :: DadaState where
  "demoTwoStrikes =
     demoState\<lparr>children := [demoEarner],
       vault := \<lparr>v_balance = 695, v_maxBalance = 1000, v_dailyAllowance = 40\<rparr>,
       tasks := [demoTask\<lparr>t_completions := 1\<rparr>],
       strikes := [demoStrike ''strike-1'', demoStrike ''strike-2'']\<rparr>"

text \<open>
  The child's request for one TV episode is pending; in \<open>demoFullVault\<close> the parent has
  topped the vault up to its maximum, in \<open>demoOrphanRequest\<close> the request names a child
  that is no longer in the list.
\<close>

definition demoPending :: DadaState where
  "demoPending = demoState\<lparr>pendingRequests := [demoRequest]\<rparr>"

definition demoFullVault :: DadaState where
  "demoFullVault =
     demoPending\<lparr>vault := \<lparr>v_balance = 1000, v_maxBalance = 1000, v_dailyAllowance = 40\<rparr>\<rparr>"

definition demoOrphanRequest :: DadaState where
  "demoOrphanRequest =
     demoState\<lparr>pendingRequests := [demoRequest\<lparr>r_childId := ''child-9''\<rparr>]\<rparr>"

section \<open>Properties\<close>

subsection \<open>Looking up the acting child and list elements by id\<close>

lemma find_map_pres:
  assumes "\<And>x. P (f x) \<longleftrightarrow> P x"
  shows "find P (map f xs) = map_option f (find P xs)"
  by (induction xs) (simp_all add: assms)

lemma getCurrentChild_map:
  assumes "children st' = map f (children st)"
    and "currentChildId st' = currentChildId st"
    and "\<And>c. cp_id (f c) = cp_id c"
  shows "getCurrentChild st' = map_option f (getCurrentChild st)"
  unfolding getCurrentChild_def
  by (simp add: assms find_map_pres split: option.splits list.splits)

lemma getCurrentChild_same:
  assumes "children st' = children st" and "currentChildId st' = currentChildId st"
  shows "getCurrentChild st' = getCurrentChild st"
  unfolding getCurrentChild_def by (simp add: assms split: option.splits)

lemma getCurrentChild_in:
  assumes "getCurrentChild st = Some ch"
  shows "ch \<in> set (children st)"
  using assms unfolding getCurrentChild_def
  by (auto simp: find_Some_iff split: option.splits list.splits)

lemma isChild_Some: "isChild (Some ch) c \<longleftrightarrow> cp_id c = cp_id ch"
  by (simp add: isChild_def)

lemma todayStrikeCount_Some:
  "todayStrikeCount (getTodayDate e) (Some ch) (strikes st) = Some (strikeCountToday e ch st)"
  by (simp add: todayStrikeCount_def strikeCountToday_def)

lemma demo_getCurrentChild: "getCurrentChild demoState = Some demoChild"
  by (simp add: getCurrentChild_def demoState_def demoChild_def)

lemma demo_today: "getTodayDate demoEnv = 19675"
  by (simp add: getTodayDate_def demoEnv_def MS_PER_DAY_def MS_PER_HOUR_def)

subsection \<open>Task completion\<close>

lemma completeTask_missing:
  assumes "find (\<lambda>t. t_id t = taskId) (tasks st) = None"
  shows "completeTask e taskId st = Some (failure MsgTaskNotFound, st)"
  by (simp add: completeTask_def assms)

lemma completeTask_refused:
  assumes "getCurrentChild st = Some ch"
    and "find (\<lambda>t. t_id t = taskId) (tasks st) = Some task"
    and "\<not> t_isActive task \<or> strikeCountToday e ch st \<ge> MAX_STRIKES \<or>
         t_completions task \<ge> t_dailyMax task \<or> v_balance (vault st) < t_payout task"
  shows "\<exists>r. completeTask e taskId st = Some (r, st) \<and> \<not> success r"
  using assms(3)
  by (auto simp: completeTask_def assms(1,2) todayStrikeCount_Some failure_def Let_def)

lemma completeTask_done:
  assumes "getCurrentChild st = Some ch"
    and "find (\<lambda>t. t_id t = taskId) (tasks st) = Some task"
    and "t_isActive task" and "strikeCountToday e ch st < MAX_STRIKES"
    and "t_completions task < t_dailyMax task" and "t_payout task \<le> v_balance (vault st)"
  shows "completeTask e taskId st =
    Some (\<lparr>success = True, message = MsgGreatJob (t_payout task), earned = Some (t_payout task),
           forfeited = None, requestId = None\<rparr>,
          st\<lparr>tasks := map (\<lambda>t. if t_id t = taskId
                                 then t\<lparr>t_completions := t_completions t + 1\<rparr> else t) (tasks st),
             children := map (\<lambda>c. if cp_id c = cp_id ch
                                 then c\<lparr>cp_pendingEarnings := cp_pendingEarnings c + t_payout task\<rparr>
                                 else c) (children st),
             vault := (vault st)\<lparr>v_balance := v_balance (vault st) - t_payout task\<rparr>\<rparr>)"
  using assms(3-6)
  by (simp add: completeTask_def assms(1,2) todayStrikeCount_Some Let_def isChild_Some)

text \<open>
  \<^bold>\<open>C3.\<close> With an acting child \<open>ch\<close>, \<open>completeTask\<close> fails and leaves the state as it
  was when no task has the id, when the task is inactive, when the child's strikes of
  the day have reached \<open>MAX_STRIKES\<close>, when the task's completions have reached its
  daily maximum, or when the vault holds less than the payout. In every other case it
  succeeds and reports the payout as earned; the task's completions go up by one, the
  payout is added to the acting child's pending earnings (so that the acting child
  afterwards is \<open>ch\<close> with only that field changed), the vault pays the payout out, the
  transaction log is as before, and nothing but tasks, children and vault has changed.
\<close>

theorem completeTask_spec:
  assumes "getCurrentChild st = Some ch"
  shows
    "(case find (\<lambda>t. t_id t = taskId) (tasks st) of
        None \<Rightarrow> \<exists>r. completeTask e taskId st = Some (r, st) \<and> \<not> success r
      | Some task \<Rightarrow>
          if \<not> t_isActive task \<or> strikeCountToday e ch st \<ge> MAX_STRIKES \<or>
             t_completions task \<ge> t_dailyMax task \<or> v_balance (vault st) < t_payout task
          then \<exists>r. completeTask e taskId st = Some (r, st) \<and> \<not> success r
          else \<exists>r st'. completeTask e taskId st = Some (r, st') \<and> success r \<and>
                 earned r = Some (t_payout task) \<and>
                 tasks st' = map (\<lambda>t. if t_id t = taskId
                                       then t\<lparr>t_completions := t_completions t + 1\<rparr> else t)
                               (tasks st) \<and>
                 find (\<lambda>t. t_id t = taskId) (tasks st') =
                   Some (task\<lparr>t_completions := t_completions task + 1\<rparr>) \<and>
                 children st' =
                   map (\<lambda>c. if cp_id c = cp_id ch
                            then c\<lparr>cp_pendingEarnings := cp_pendingEarnings c + t_payout task\<rparr>
                            else c)
                     (children st) \<and>
                 getCurrentChild st' =
                   Some (ch\<lparr>cp_pendingEarnings := cp_pendingEarnings ch + t_payout task\<rparr>) \<and>
                 vault st' = (vault st)\<lparr>v_balance := v_balance (vault st) - t_payout task\<rparr> \<and>
                 transactions st' = transactions st \<and>
                 st' = st\<lparr>tasks := tasks st', children := children st', vault := vault st'\<rparr>)"
proof (cases "find (\<lambda>t. t_id t = taskId) (tasks st)")
  case None
  then show ?thesis by (simp add: completeTask_missing failure_def)
next
  case (Some task)
  show ?thesis
  proof (cases "\<not> t_isActive task \<or> strikeCountToday e ch st \<ge> MAX_STRIKES \<or>
             t_completions task \<ge> t_dailyMax task \<or> v_balance (vault st) < t_payout task")
    case True
    then show ?thesis using completeTask_refused[OF assms Some True] by (simp add: Some)
  next
    case False
    let ?ft = "\<lambda>t. if t_id t = taskId then t\<lparr>t_completions := t_completions t + 1\<rparr> else t"
    let ?fc = "\<lambda>c. if cp_id c = cp_id ch
                    then c\<lparr>cp_pendingEarnings := cp_pendingEarnings c + t_payout task\<rparr> else c"
    let ?st' = "st\<lparr>tasks := map ?ft (tasks st), children := map ?fc (children st),
                  vault := (vault st)\<lparr>v_balance := v_balance (vault st) - t_payout task\<rparr>\<rparr>"
    from False have run: "completeTask e taskId st =
        Some (\<lparr>success = True, message = MsgGreatJob (t_payout task),
               earned = Some (t_payout task), forfeited = None, requestId = None\<rparr>, ?st')"
      using completeTask_done[OF assms Some] by simp
    have ft: "find (\<lambda>t. t_id t = taskId) (map ?ft (tasks st)) =
        Some (task\<lparr>t_completions := t_completions task + 1\<rparr>)"
    proof -
      have "t_id task = taskId" using Some by (auto simp: find_Some_iff)
      moreover have "find (\<lambda>t. t_id t = taskId) (map ?ft (tasks st)) =
          map_option ?ft (find (\<lambda>t. t_id t = taskId) (tasks st))"
        by (rule find_map_pres) simp
      ultimately show ?thesis by (simp add: Some)
    qed
    have gc: "getCurrentChild ?st' =
        Some (ch\<lparr>cp_pendingEarnings := cp_pendingEarnings ch + t_payout task\<rparr>)"
    proof -
      have "getCurrentChild ?st' = map_option ?fc (getCurrentChild st)"
        by (rule getCurrentChild_map) simp_all
      then show ?thesis by (simp add: assms)
    qed
    show ?thesis
      using False by (simp add: Some run ft gc)
  qed
qed

theorem completeTask_spec_witness:
  "getCurrentChild demoState = Some demoChild \<and>
   (\<exists>r st'. completeTask demoEnv ''task-2'' demoState = Some (r, st') \<and> success r \<and>
      earned r = Some 5 \<and>
      find (\<lambda>t. t_id t = ''task-2'') (tasks st') = Some (demoTask\<lparr>t_completions := 1\<rparr>) \<and>
      getCurrentChild st' = Some (demoChild\<lparr>cp_pendingEarnings := 5\<rparr>) \<and>
      v_balance (vault st') = 695 \<and> transactions st' = [])"
proof -
  have t: "find (\<lambda>t. t_id t = ''task-2'') (tasks demoState) = Some demoTask"
    by (simp add: demoState_def demoTask_def)
  have c: "strikeCountToday demoEnv demoChild demoState = 0"
    by (simp add: strikeCountToday_def demoState_def)
  have v: "v_balance (vault demoState) = 700"
    by (simp add: demoState_def)
  have g: "\<not> (\<not> t_isActive demoTask \<or> strikeCountToday demoEnv demoChild demoState \<ge> MAX_STRIKES \<or>
      t_completions demoTask \<ge> t_dailyMax demoTask \<or>
      v_balance (vault demoState) < t_payout demoTask)"
    by (simp add: c v MAX_STRIKES_def demoTask_def)
  have "\<exists>r st'. completeTask demoEnv ''task-2'' demoState = Some (r, st') \<and> success r \<and>
      earned r = Some (t_payout demoTask) \<and>
      find (\<lambda>t. t_id t = ''task-2'') (tasks st') =
        Some (demoTask\<lparr>t_completions := t_completions demoTask + 1\<rparr>) \<and>
      getCurrentChild st' =
        Some (demoChild\<lparr>cp_pendingEarnings := cp_pendingEarnings demoChild + t_payout demoTask\<rparr>) \<and>
      vault st' = (vault demoState)\<lparr>v_balance := v_balance (vault demoState) - t_payout demoTask\<rparr> \<and>
      transactions st' = transactions demoState"
    using completeTask_spec[OF demo_getCurrentChild, where taskId = "''task-2''" and e = demoEnv] g
    unfolding t option.case by (simp only: if_False) blast
  then obtain r st' where
    "completeTask demoEnv ''task-2'' demoState = Some (r, st')" "success r"
    "earned r = Some (t_payout demoTask)"
    "find (\<lambda>t. t_id t = ''task-2'') (tasks st') =
        Some (demoTask\<lparr>t_completions := t_completions demoTask + 1\<rparr>)"
    "getCurrentChild st' =
        Some (demoChild\<lparr>cp_pendingEarnings := cp_pendingEarnings demoChild + t_payout demoTask\<rparr>)"
    "vault st' = (vault demoState)\<lparr>v_balance := v_balance (vault demoState) - t_payout demoTask\<rparr>"
    "transactions st' = transactions demoState"
    by blast
  then have "\<exists>r st'. completeTask demoEnv ''task-2'' demoState = Some (r, st') \<and> success r \<and>
      earned r = Some 5 \<and>
      find (\<lambda>t. t_id t = ''task-2'') (tasks st') = Some (demoTask\<lparr>t_completions := 1\<rparr>) \<and>
      getCurrentChild st' = Some (demoChild\<lparr>cp_pendingEarnings := 5\<rparr>) \<and>
      v_balance (vault st') = 695 \<and> transactions st' = []"
    by (simp add: demoTask_def demoChild_def demoState_def)
  with demo_getCurrentChild show ?thesis by (rule conjI)
qed

subsection \<open>Strikes\<close>

lemma demoStruck_child: "getCurrentChild demoStruckState = Some demoChild"
  by (simp add: getCurrentChild_def demoStruckState_def demoState_def demoChild_def)

lemma addStrike_refused:
  assumes "getCurrentChild st = Some ch" and "strikeCountToday e ch st \<ge> MAX_STRIKES"
  shows "addStrike e reason st = Some (failure MsgMaxStrikes, st)"
  using assms(2) by (simp add: addStrike_def assms(1) strikeCountToday_def Let_def)

text \<open>
  \<^bold>\<open>C7.\<close> When the acting child's strikes of the day have already reached
  \<open>MAX_STRIKES\<close>, \<open>addStrike\<close> fails and returns the very state it was given: no
  strike is appended, nothing is forfeited, no transaction is logged.
\<close>

theorem addStrike_at_cap:
  assumes "getCurrentChild st = Some ch" and "strikeCountToday e ch st \<ge> MAX_STRIKES"
  shows "\<exists>r. addStrike e reason st = Some (r, st) \<and> \<not> success r \<and> forfeited r = None"
  using assms
  by (simp add: addStrike_def strikeCountToday_def Let_def failure_def)

theorem addStrike_at_cap_witness:
  "getCurrentChild demoStruckState = Some demoChild \<and>
   strikeCountToday demoEnv demoChild demoStruckState = MAX_STRIKES \<and>
   (\<exists>r. addStrike demoEnv ''late'' demoStruckState = Some (r, demoStruckState) \<and> \<not> success r)"
proof -
  have c: "strikeCountToday demoEnv demoChild demoStruckState = MAX_STRIKES"
    by (simp add: strikeCountToday_def demoStruckState_def demoStrike_def demo_today
        demoChild_def MAX_STRIKES_def)
  then have "strikeCountToday demoEnv demoChild demoStruckState \<ge> MAX_STRIKES" by simp
  from addStrike_at_cap[OF demoStruck_child this, where reason = "''late''"] c demoStruck_child
  show ?thesis by blast
qed

lemma getCurrentChild_strikes [simp]:
  "getCurrentChild (st\<lparr>strikes := ss\<rparr>) = getCurrentChild st"
  by (rule getCurrentChild_same) simp_all

lemma strikeCountToday_append:
  "strikeCountToday e' ch (st\<lparr>strikes := strikes st @ [strikeRecord e ch reason]\<rparr>) =
     strikeCountToday e' ch st + (if getTodayDate e = getTodayDate e' then 1 else 0)"
  by (simp add: strikeCountToday_def strikeRecord_def)

lemma strikeCountToday_resetStrikes: "strikeCountToday e ch (resetStrikes st) = 0"
  by (simp add: strikeCountToday_def resetStrikes_def)

lemma addStrike_below:
  assumes "getCurrentChild st = Some ch" and "strikeCountToday e ch st + 1 < MAX_STRIKES"
  shows "addStrike e reason st =
    Some (succeeded (MsgStrike (strikeCountToday e ch st + 1)
                       (MAX_STRIKES - (strikeCountToday e ch st + 1))),
          st\<lparr>strikes := strikes st @ [strikeRecord e ch reason]\<rparr>)"
  using assms(2)
  by (simp add: addStrike_def assms(1) strikeCountToday_def strikeRecord_def Let_def)

lemma addStrike_reaching:
  assumes "getCurrentChild st = Some ch" and "strikeCountToday e ch st + 1 = MAX_STRIKES"
  shows "addStrike e reason st =
    Some (\<lparr>success = True, message = MsgForfeited (cp_pendingEarnings ch), earned = None,
           forfeited = Some (cp_pendingEarnings ch), requestId = None\<rparr>,
          st\<lparr>strikes := strikes st @ [strikeRecord e ch reason],
             children := map (\<lambda>c. if cp_id c = cp_id ch then c\<lparr>cp_pendingEarnings := 0\<rparr> else c)
                           (children st),
             vault := (vault st)\<lparr>v_balance :=
                        min VAULT_MAX (v_balance (vault st) + cp_pendingEarnings ch)\<rparr>,
             transactions :=
               (if cp_pendingEarnings ch > 0
                then \<lparr>x_id = ''txn-'' @ generateId e 1, x_childId = cp_id ch,
                      x_type = strike_penalty, x_amount = - cp_pendingEarnings ch,
                      x_description = DescForfeited, x_timestamp = now e\<rparr> # transactions st
                else transactions st)\<rparr>)"
  using assms(2)
  by (simp add: addStrike_def assms(1) strikeCountToday_def strikeRecord_def Let_def)

text \<open>
  \<^bold>\<open>C2.\<close> Let \<open>ch\<close> be the acting child, in a state whose vault has \<open>maxBalance\<close> equal
  to \<open>VAULT_MAX\<close> (as every vault the store creates). When \<open>addStrike\<close> brings the
  child's strikes of the day to exactly \<open>MAX_STRIKES\<close>, it succeeds and reports the
  child's pending earnings as forfeited; the child's pending earnings become 0 (all else
  about the child is kept), the vault balance becomes the old balance plus the
  forfeited amount, capped at \<open>maxBalance\<close>, and the transaction log gains one
  \<open>strike_penalty\<close> entry for the child with amount minus the forfeited amount if the
  forfeited amount is greater than 0, and is unchanged otherwise.
  After \<open>resetStrikes\<close>, three strikes on one day succeed in turn; the first two forfeit
  nothing and leave children, vault and log alone, and the third forfeits the pending
  earnings again.
\<close>

theorem addStrike_forfeiture:
  assumes "getCurrentChild st = Some ch" and "v_maxBalance (vault st) = VAULT_MAX"
  shows
    "(strikeCountToday e ch st + 1 = MAX_STRIKES \<longrightarrow>
        (\<exists>r st'. addStrike e reason st = Some (r, st') \<and> success r \<and>
           forfeited r = Some (cp_pendingEarnings ch) \<and>
           strikeCountToday e ch st' = MAX_STRIKES \<and>
           children st' =
             map (\<lambda>c. if cp_id c = cp_id ch then c\<lparr>cp_pendingEarnings := 0\<rparr> else c)
               (children st) \<and>
           getCurrentChild st' = Some (ch\<lparr>cp_pendingEarnings := 0\<rparr>) \<and>
           vault st' =
             (vault st)\<lparr>v_balance :=
               min (v_maxBalance (vault st)) (v_balance (vault st) + cp_pendingEarnings ch)\<rparr> \<and>
           (if 0 < cp_pendingEarnings ch
            then \<exists>x. transactions st' = x # transactions st \<and> x_type x = strike_penalty \<and>
                   x_childId x = cp_id ch \<and> x_amount x = - cp_pendingEarnings ch
            else transactions st' = transactions st))) \<and>
     (getTodayDate e2 = getTodayDate e1 \<and> getTodayDate e3 = getTodayDate e1 \<longrightarrow>
        (\<exists>r1 st1 r2 st2 r3 st3.
           addStrike e1 reason1 (resetStrikes st) = Some (r1, st1) \<and>
           addStrike e2 reason2 st1 = Some (r2, st2) \<and>
           addStrike e3 reason3 st2 = Some (r3, st3) \<and>
           success r1 \<and> forfeited r1 = None \<and> success r2 \<and> forfeited r2 = None \<and>
           children st2 = children st \<and> vault st2 = vault st \<and>
           transactions st2 = transactions st \<and>
           success r3 \<and> forfeited r3 = Some (cp_pendingEarnings ch) \<and>
           getCurrentChild st3 = Some (ch\<lparr>cp_pendingEarnings := 0\<rparr>) \<and>
           vault st3 =
             (vault st)\<lparr>v_balance :=
               min (v_maxBalance (vault st)) (v_balance (vault st) + cp_pendingEarnings ch)\<rparr>))"
proof (intro conjI impI)
  assume third: "strikeCountToday e ch st + 1 = MAX_STRIKES"
  let ?fc = "\<lambda>c. if cp_id c = cp_id ch then c\<lparr>cp_pendingEarnings := 0\<rparr> else c"
  let ?txs = "if cp_pendingEarnings ch > 0
                then \<lparr>x_id = ''txn-'' @ generateId e 1, x_childId = cp_id ch,
                      x_type = strike_penalty, x_amount = - cp_pendingEarnings ch,
                      x_description = DescForfeited, x_timestamp = now e\<rparr> # transactions st
                else transactions st"
  let ?st' = "st\<lparr>strikes := strikes st @ [strikeRecord e ch reason],
             children := map ?fc (children st),
             vault := (vault st)\<lparr>v_balance :=
                        min VAULT_MAX (v_balance (vault st) + cp_pendingEarnings ch)\<rparr>,
             transactions := ?txs\<rparr>"
  have gc: "getCurrentChild ?st' = Some (ch\<lparr>cp_pendingEarnings := 0\<rparr>)"
  proof -
    have "getCurrentChild ?st' = map_option ?fc (getCurrentChild st)"
      by (rule getCurrentChild_map) simp_all
    then show ?thesis by (simp add: assms(1))
  qed
  have cnt: "strikeCountToday e ch ?st' = MAX_STRIKES"
    using third by (simp add: strikeCountToday_def strikeRecord_def)
  show "\<exists>r st'. addStrike e reason st = Some (r, st') \<and> success r \<and>
           forfeited r = Some (cp_pendingEarnings ch) \<and>
           strikeCountToday e ch st' = MAX_STRIKES \<and>
           children st' = map ?fc (children st) \<and>
           getCurrentChild st' = Some (ch\<lparr>cp_pendingEarnings := 0\<rparr>) \<and>
           vault st' =
             (vault st)\<lparr>v_balance :=
               min (v_maxBalance (vault st)) (v_balance (vault st) + cp_pendingEarnings ch)\<rparr> \<and>
           (if 0 < cp_pendingEarnings ch
            then \<exists>x. transactions st' = x # transactions st \<and> x_type x = strike_penalty \<and>
                   x_childId x = cp_id ch \<and> x_amount x = - cp_pendingEarnings ch
            else transactions st' = transactions st)"
    unfolding addStrike_reaching[OF assms(1) third]
    using gc cnt by (simp add: assms(2))
next
  assume days: "getTodayDate e2 = getTodayDate e1 \<and> getTodayDate e3 = getTodayDate e1"
  let ?s0 = "resetStrikes st"
  let ?s1 = "?s0\<lparr>strikes := strikes ?s0 @ [strikeRecord e1 ch reason1]\<rparr>"
  let ?s2 = "?s1\<lparr>strikes := strikes ?s1 @ [strikeRecord e2 ch reason2]\<rparr>"
  have g0: "getCurrentChild ?s0 = Some ch"
    by (simp add: resetStrikes_def assms(1))
  have g1: "getCurrentChild ?s1 = Some ch" using g0 by simp
  have g2: "getCurrentChild ?s2 = Some ch" using g1 by simp
  have n0: "strikeCountToday e1 ch ?s0 = 0" by (rule strikeCountToday_resetStrikes)
  have n1: "strikeCountToday e2 ch ?s1 = 1"
    using days by (simp add: strikeCountToday_def strikeRecord_def resetStrikes_def)
  have n2: "strikeCountToday e3 ch ?s2 = 2"
    using days by (simp add: strikeCountToday_def strikeRecord_def resetStrikes_def)
  have "strikeCountToday e1 ch ?s0 + 1 < MAX_STRIKES" by (simp add: n0 MAX_STRIKES_def)
  from addStrike_below[OF g0 this, of reason1]
  obtain r1 where a1: "addStrike e1 reason1 ?s0 = Some (r1, ?s1)"
    and r1: "success r1" "forfeited r1 = None"
    by (simp add: succeeded_def)
  have "strikeCountToday e2 ch ?s1 + 1 < MAX_STRIKES" by (simp add: n1 MAX_STRIKES_def)
  from addStrike_below[OF g1 this, of reason2]
  obtain r2 where a2: "addStrike e2 reason2 ?s1 = Some (r2, ?s2)"
    and r2: "success r2" "forfeited r2 = None"
    by (simp add: succeeded_def)
  have "strikeCountToday e3 ch ?s2 + 1 = MAX_STRIKES" using n2 by (simp add: MAX_STRIKES_def)
  note a3 = addStrike_reaching[OF g2 this, of reason3]
  have frame: "children ?s2 = children st" "vault ?s2 = vault st"
    "transactions ?s2 = transactions st"
    by (simp_all add: resetStrikes_def)
  let ?fc = "\<lambda>c. if cp_id c = cp_id ch then c\<lparr>cp_pendingEarnings := 0\<rparr> else c"
  let ?s3 = "?s2\<lparr>strikes := strikes ?s2 @ [strikeRecord e3 ch reason3],
             children := map ?fc (children ?s2),
             vault := (vault ?s2)\<lparr>v_balance :=
                        min VAULT_MAX (v_balance (vault ?s2) + cp_pendingEarnings ch)\<rparr>,
             transactions :=
               (if cp_pendingEarnings ch > 0
                then \<lparr>x_id = ''txn-'' @ generateId e3 1, x_childId = cp_id ch,
                      x_type = strike_penalty, x_amount = - cp_pendingEarnings ch,
                      x_description = DescForfeited, x_timestamp = now e3\<rparr> # transactions ?s2
                else transactions ?s2)\<rparr>"
  have g3: "getCurrentChild ?s3 = Some (ch\<lparr>cp_pendingEarnings := 0\<rparr>)"
  proof -
    have "getCurrentChild ?s3 = map_option ?fc (getCurrentChild ?s2)"
      by (rule getCurrentChild_map) simp_all
    then show ?thesis by (simp only: g2 option.map)  simp
  qed
  let ?r3 = "\<lparr>success = True, message = MsgForfeited (cp_pendingEarnings ch),
        earned = None, forfeited = Some (cp_pendingEarnings ch), requestId = None\<rparr>"
  have r3: "success ?r3" "forfeited ?r3 = Some (cp_pendingEarnings ch)" by simp_all
  have v3: "vault ?s3 = (vault st)\<lparr>v_balance :=
               min (v_maxBalance (vault st)) (v_balance (vault st) + cp_pendingEarnings ch)\<rparr>"
    by (simp add: resetStrikes_def assms(2))
  show "\<exists>r1 st1 r2 st2 r3 st3.
           addStrike e1 reason1 (resetStrikes st) = Some (r1, st1) \<and>
           addStrike e2 reason2 st1 = Some (r2, st2) \<and>
           addStrike e3 reason3 st2 = Some (r3, st3) \<and>
           success r1 \<and> forfeited r1 = None \<and> success r2 \<and> forfeited r2 = None \<and>
           children st2 = children st \<and> vault st2 = vault st \<and>
           transactions st2 = transactions st \<and>
           success r3 \<and> forfeited r3 = Some (cp_pendingEarnings ch) \<and>
           getCurrentChild st3 = Some (ch\<lparr>cp_pendingEarnings := 0\<rparr>) \<and>
           vault st3 =
             (vault st)\<lparr>v_balance :=
               min (v_maxBalance (vault st)) (v_balance (vault st) + cp_pendingEarnings ch)\<rparr>"
    using a1 a2 a3 r1 r2 frame g3 v3 r3 by blast
qed

theorem addStrike_forfeiture_witness:
  "getCurrentChild demoTwoStrikes = Some demoEarner \<and>
   v_maxBalance (vault demoTwoStrikes) = VAULT_MAX \<and>
   strikeCountToday demoEnv demoEarner demoTwoStrikes + 1 = MAX_STRIKES \<and>
   (\<exists>r st'. addStrike demoEnv ''late'' demoTwoStrikes = Some (r, st') \<and>
      forfeited r = Some 5 \<and>
      getCurrentChild st' = Some (demoEarner\<lparr>cp_pendingEarnings := 0\<rparr>) \<and>
      v_balance (vault st') = 700 \<and>
      (\<exists>x. transactions st' = [x] \<and> x_type x = strike_penalty \<and> x_amount x = - 5)) \<and>
   (\<exists>r1 st1 r2 st2 r3 st3.
      addStrike demoEnv ''one'' (resetStrikes demoTwoStrikes) = Some (r1, st1) \<and>
      addStrike demoEnv ''two'' st1 = Some (r2, st2) \<and>
      addStrike demoEnv ''three'' st2 = Some (r3, st3) \<and>
      forfeited r1 = None \<and> forfeited r2 = None \<and> forfeited r3 = Some 5 \<and>
      getCurrentChild st3 = Some (demoEarner\<lparr>cp_pendingEarnings := 0\<rparr>))"
proof -
  have h1: "getCurrentChild demoTwoStrikes = Some demoEarner"
    by (simp add: getCurrentChild_def demoTwoStrikes_def demoState_def demoEarner_def
        demoChild_def)
  have h2: "v_maxBalance (vault demoTwoStrikes) = VAULT_MAX"
    by (simp add: demoTwoStrikes_def VAULT_MAX_def)
  have h3: "strikeCountToday demoEnv demoEarner demoTwoStrikes + 1 = MAX_STRIKES"
    by (simp add: strikeCountToday_def demoTwoStrikes_def demoStrike_def demo_today
        demoEarner_def demoChild_def MAX_STRIKES_def)
  have p: "cp_pendingEarnings demoEarner = 5" by (simp add: demoEarner_def)
  have v: "v_balance (vault demoTwoStrikes) = 695" "transactions demoTwoStrikes = []"
    by (simp_all add: demoTwoStrikes_def demoState_def)
  note T = addStrike_forfeiture[OF h1 h2, where e = demoEnv and reason = "''late''"
      and ?e1.0 = demoEnv and ?e2.0 = demoEnv and ?e3.0 = demoEnv
      and ?reason1.0 = "''one''" and ?reason2.0 = "''two''" and ?reason3.0 = "''three''"]
  from T h3 have A: "\<exists>r st'. addStrike demoEnv ''late'' demoTwoStrikes = Some (r, st') \<and>
      forfeited r = Some 5 \<and>
      getCurrentChild st' = Some (demoEarner\<lparr>cp_pendingEarnings := 0\<rparr>) \<and>
      v_balance (vault st') = 700 \<and>
      (\<exists>x. transactions st' = [x] \<and> x_type x = strike_penalty \<and> x_amount x = - 5)"
    unfolding p v h2 VAULT_MAX_def by auto
  from T have B: "\<exists>r1 st1 r2 st2 r3 st3.
      addStrike demoEnv ''one'' (resetStrikes demoTwoStrikes) = Some (r1, st1) \<and>
      addStrike demoEnv ''two'' st1 = Some (r2, st2) \<and>
      addStrike demoEnv ''three'' st2 = Some (r3, st3) \<and>
      forfeited r1 = None \<and> forfeited r2 = None \<and> forfeited r3 = Some 5 \<and>
      getCurrentChild st3 = Some (demoEarner\<lparr>cp_pendingEarnings := 0\<rparr>)"
    unfolding p by blast
  from h1 h2 h3 A B show ?thesis by blast
qed

subsection \<open>Savings interest\<close>

lemma roundHalfEven_error: "\<bar>of_int (roundHalfEven y) - y\<bar> \<le> 1 / 2"
proof -
  have "of_int \<lfloor>y\<rfloor> \<le> y" "y < of_int \<lfloor>y\<rfloor> + 1" by linarith+
  then show ?thesis by (auto simp: roundHalfEven_def Let_def)
qed

lemma roundHalfEven_of_int: "roundHalfEven (of_int k) = k"
  by (simp add: roundHalfEven_def)

lemma roundHalfEven_ge:
  assumes "of_int k \<le> y"
  shows "k \<le> roundHalfEven y"
proof -
  have "k \<le> \<lfloor>y\<rfloor>" using assms by (simp add: le_floor_iff)
  then show ?thesis by (auto simp: roundHalfEven_def Let_def)
qed

lemma roundHalfEven_near:
  assumes "\<bar>of_int m - y\<bar> < 1 / 2"
  shows "roundHalfEven y = m"
proof -
  have "\<bar>(of_int (roundHalfEven y) :: rat) - of_int m\<bar> < 1"
    using roundHalfEven_error[of y] assms by linarith
  then have "\<bar>roundHalfEven y - m\<bar> < 1"
    by (metis of_int_diff of_int_abs of_int_less_1_iff)
  then show ?thesis by linarith
qed

lemma pow2_of_bitlen:
  assumes "0 < p"
  shows "(2::rat) powi (bitlen p - 1) \<le> of_int p" and "of_int p < (2::rat) powi bitlen p"
proof -
  from bitlen_bounds[OF assms] have b: "2 ^ nat (bitlen p - 1) \<le> p" "p < 2 ^ nat (bitlen p)"
    by simp_all
  have pos: "0 \<le> bitlen p - 1" using assms by (simp add: bitlen_alt_def)
  have "(2::rat) powi (bitlen p - 1) = of_int (2 ^ nat (bitlen p - 1))"
    using pos by (simp add: power_int_def)
  also have "\<dots> \<le> of_int p" using b(1) by (simp only: of_int_le_iff)
  finally show "(2::rat) powi (bitlen p - 1) \<le> of_int p" .
  have "(of_int p :: rat) < of_int (2 ^ nat (bitlen p))" using b(2) by (simp only: of_int_less_iff)
  also have "\<dots> = 2 powi bitlen p" using pos by (simp add: power_int_def)
  finally show "of_int p < (2::rat) powi bitlen p" .
qed

lemma binaryExponent_bracket:
  assumes "x \<noteq> 0"
  shows "2 powi binaryExponent x \<le> \<bar>x\<bar>" and "\<bar>x\<bar> < 2 powi (binaryExponent x + 1)"
proof -
  obtain p q where pq: "quotient_of \<bar>x\<bar> = (p, q)" by fastforce
  then have q: "0 < q" by (rule quotient_of_denom_pos)
  have x: "\<bar>x\<bar> = of_int p / of_int q" using pq by (rule quotient_of_div)
  have "0 < \<bar>x\<bar>" using assms by simp
  then have p: "0 < p" using x q by (simp add: zero_less_divide_iff)
  let ?e = "bitlen p - bitlen q"
  note P = pow2_of_bitlen[OF p] and Q = pow2_of_bitlen[OF q]
  have qr: "(0::rat) < of_int q" using q by simp
  have lo: "2 powi (?e - 1) \<le> \<bar>x\<bar>"
  proof -
    have a: "?e - 1 = (bitlen p - 1) - bitlen q" by simp
    have "(2::rat) powi (?e - 1) = 2 powi (bitlen p - 1) / 2 powi bitlen q"
      unfolding a by (rule power_int_diff) simp
    also have "\<dots> \<le> of_int p / 2 powi bitlen q"
      using P(1) by (simp add: divide_right_mono)
    also have "\<dots> \<le> of_int p / of_int q"
      using Q(2) p qr by (intro divide_left_mono) (simp_all add: less_imp_le)
    finally show ?thesis by (simp add: x)
  qed
  have hi: "\<bar>x\<bar> < 2 powi (?e + 1)"
  proof -
    have "of_int p / of_int q < (2::rat) powi bitlen p / of_int q"
      using P(2) qr by (simp add: divide_strict_right_mono)
    also have "\<dots> \<le> 2 powi bitlen p / 2 powi (bitlen q - 1)"
      using Q(1) qr by (intro divide_left_mono) (simp_all add: zero_less_mult_iff)
    also have "\<dots> = 2 powi (bitlen p - (bitlen q - 1))"
      by (rule power_int_diff[symmetric]) simp
    also have "bitlen p - (bitlen q - 1) = ?e + 1" by simp
    finally show ?thesis by (simp add: x)
  qed
  have e: "binaryExponent x = (if 2 powi ?e \<le> \<bar>x\<bar> then ?e else ?e - 1)"
    by (simp add: binaryExponent_def pq Let_def)
  show "2 powi binaryExponent x \<le> \<bar>x\<bar>" using lo by (simp add: e)
  show "\<bar>x\<bar> < 2 powi (binaryExponent x + 1)" using hi by (auto simp: e)
qed

lemma pow2_le_abs_nonzero:
  assumes "(2::rat) powi e \<le> \<bar>x\<bar>"
  shows "x \<noteq> 0"
proof
  assume "x = 0"
  with assms have "(2::rat) powi e \<le> 0" by simp
  moreover have "(0::rat) < 2 powi e" by simp
  ultimately show False by linarith
qed

lemma pow2_less_imp:
  assumes "(2::rat) powi a < 2 powi b"
  shows "a < b"
proof (rule ccontr)
  assume "\<not> a < b"
  then have "b \<le> a" by simp
  then have "(2::rat) powi b \<le> 2 powi a" by (intro power_int_increasing) simp_all
  with assms show False by simp
qed

lemma binaryExponent_le:
  assumes "x \<noteq> 0" and "\<bar>x\<bar> < 2 powi (E + 1)"
  shows "binaryExponent x \<le> E"
proof -
  have "(2::rat) powi binaryExponent x < 2 powi (E + 1)"
    using binaryExponent_bracket(1)[OF assms(1)] assms(2) by simp
  then show ?thesis using pow2_less_imp by fastforce
qed

lemma binaryExponent_ge:
  assumes "2 powi E \<le> \<bar>x\<bar>"
  shows "E \<le> binaryExponent x"
proof -
  have "x \<noteq> 0" using assms by (rule pow2_le_abs_nonzero)
  then have "(2::rat) powi E < 2 powi (binaryExponent x + 1)"
    using binaryExponent_bracket(2) assms by fastforce
  then show ?thesis using pow2_less_imp by fastforce
qed

lemma binaryExponent_unique:
  assumes "2 powi e \<le> \<bar>x\<bar>" and "\<bar>x\<bar> < 2 powi (e + 1)"
  shows "binaryExponent x = e"
proof -
  have "x \<noteq> 0" using assms(1) by (rule pow2_le_abs_nonzero)
  from binaryExponent_le[OF this assms(2)] binaryExponent_ge[OF assms(1)]
  show ?thesis by simp
qed

lemma toDouble_eval:
  assumes "2 powi e \<le> \<bar>x\<bar>" and "\<bar>x\<bar> < 2 powi (e + 1)"
  shows "toDouble x = of_int (roundHalfEven (x / 2 powi (e - 52))) * 2 powi (e - 52)"
proof -
  have "x \<noteq> 0" using assms(1) by (rule pow2_le_abs_nonzero)
  then show ?thesis by (simp add: toDouble_def binaryExponent_unique[OF assms] Let_def)
qed

lemma toDouble_error:
  assumes "\<bar>x\<bar> < 2 powi (E + 1)"
  shows "\<bar>toDouble x - x\<bar> \<le> 2 powi (E - 53)"
proof (cases "x = 0")
  case True
  then show ?thesis by (simp add: toDouble_def)
next
  case False
  let ?q = "binaryExponent x - 52"
  let ?m = "roundHalfEven (x / 2 powi ?q)"
  have pos: "(0::rat) < 2 powi ?q" by simp
  have "toDouble x - x = (of_int ?m - x / 2 powi ?q) * 2 powi ?q"
    using False by (simp add: toDouble_def Let_def algebra_simps)
  then have "\<bar>toDouble x - x\<bar> = \<bar>of_int ?m - x / 2 powi ?q\<bar> * 2 powi ?q"
    by (simp add: abs_mult)
  also have "\<dots> \<le> (1 / 2) * 2 powi ?q"
    using roundHalfEven_error[of "x / 2 powi ?q"] pos by (intro mult_right_mono) simp_all
  also have "\<dots> = 2 powi (?q - 1)" by (simp add: power_int_diff)
  also have "\<dots> \<le> 2 powi (E - 53)"
    using binaryExponent_le[OF False assms] by (intro power_int_increasing) simp_all
  finally show ?thesis .
qed

lemma scale_to_int:
  assumes "q \<le> 0"
  shows "(of_int n :: rat) / 2 powi q = of_int (n * 2 ^ nat (- q))"
  using assms by (simp add: power_int_def field_simps)

lemma toDouble_ge_int:
  assumes "x \<noteq> 0" and "\<bar>x\<bar> < 2 powi 53" and "of_int n \<le> x"
  shows "of_int n \<le> toDouble x"
proof -
  let ?q = "binaryExponent x - 52"
  have q: "?q \<le> 0" using binaryExponent_le[OF assms(1), of 52] assms(2) by simp
  have pos: "(0::rat) < 2 powi ?q" by simp
  have "(of_int (n * 2 ^ nat (- ?q)) :: rat) = of_int n / 2 powi ?q"
    using scale_to_int[OF q] by simp
  also have "\<dots> \<le> x / 2 powi ?q" using assms(3) pos by (simp add: divide_right_mono)
  finally have "n * 2 ^ nat (- ?q) \<le> roundHalfEven (x / 2 powi ?q)" by (rule roundHalfEven_ge)
  then have "(of_int (n * 2 ^ nat (- ?q)) :: rat) \<le> of_int (roundHalfEven (x / 2 powi ?q))"
    by (simp only: of_int_le_iff)
  then have "of_int n / 2 powi ?q \<le> (of_int (roundHalfEven (x / 2 powi ?q)) :: rat)"
    using scale_to_int[OF q, of n] by simp
  then have "of_int n \<le> (of_int (roundHalfEven (x / 2 powi ?q)) :: rat) * 2 powi ?q"
    using pos by (simp add: pos_divide_le_eq)
  then show ?thesis using assms(1) by (simp add: toDouble_def Let_def)
qed

lemma toDouble_of_int:
  assumes "\<bar>n\<bar> < 2 ^ 53"
  shows "toDouble (of_int n) = of_int n"
proof (cases "n = 0")
  case True
  then show ?thesis by (simp add: toDouble_def)
next
  case False
  let ?x = "of_int n :: rat"
  let ?q = "binaryExponent ?x - 52"
  have nz: "?x \<noteq> 0" using False by simp
  have "\<bar>?x\<bar> < 2 powi 53"
  proof -
    have "\<bar>?x\<bar> = of_int \<bar>n\<bar>" by simp
    also have "\<dots> < of_int (2 ^ 53)" using assms by (simp only: of_int_less_iff)
    finally show ?thesis by simp
  qed
  then have q: "?q \<le> 0" using binaryExponent_le[OF nz, of 52] by simp
  have pos: "(2::rat) powi ?q \<noteq> 0" by simp
  have "roundHalfEven (?x / 2 powi ?q) = n * 2 ^ nat (- ?q)"
    by (simp only: scale_to_int[OF q] roundHalfEven_of_int)
  then have "toDouble ?x = of_int (n * 2 ^ nat (- ?q)) * 2 powi ?q"
    using nz by (simp add: toDouble_def Let_def)
  also have "\<dots> = (?x / 2 powi ?q) * 2 powi ?q" by (simp only: scale_to_int[OF q])
  also have "\<dots> = ?x" using pos by simp
  finally show ?thesis .
qed

lemma floor_hundredth: "\<lfloor>(of_int s :: rat) * (1 / 100)\<rfloor> = s div 100"
  using floor_divide_of_int_eq[of s 100, where ?'a = rat] by simp

lemma hundredths_of_fraction:
  "((of_int s :: rat) * (1 / 100) - of_int (s div 100)) * 100 = of_int (s mod 100)"
proof -
  have "(of_int s :: rat) = of_int (s div 100 * 100 + s mod 100)"
    by (simp only: div_mult_mod_eq)
  also have "\<dots> = of_int (s div 100) * 100 + of_int (s mod 100)"
    by (simp only: of_int_add of_int_mult of_int_numeral)
  finally show ?thesis by (simp add: algebra_simps)
qed

lemma toDouble_0: "toDouble 0 = 0"
  by (simp add: toDouble_def)

lemma dailyRate_value: "toDouble (1 / 100) = 5764607523034235 / 576460752303423488"
proof -
  have "roundHalfEven ((1 / 100) / 2 powi (- 7 - 52)) = 5764607523034235"
    by (rule roundHalfEven_near) simp
  moreover have "toDouble (1 / 100) =
      of_int (roundHalfEven ((1 / 100) / 2 powi (- 7 - 52))) * 2 powi (- 7 - 52)"
    by (rule toDouble_eval) simp_all
  ultimately show ?thesis by simp
qed

lemma calculateDailyInterest_below_2_52:
  assumes "0 \<le> s" and "s < 2 ^ 52"
  shows "calculateDailyInterest s = \<lparr>wholeAmount = s div 100, newAccrued = s mod 100\<rparr>"
proof (cases "s = 0")
  case True
  then show ?thesis by (simp add: calculateDailyInterest_def toDouble_0 Let_def)
next
  case False
  define n k where "n = s div 100" and "k = s mod 100"
  define x1 :: rat where "x1 = of_int s * (5764607523034235 / 576460752303423488)"
  define I1 where "I1 = toDouble x1"
  define D where "D = I1 - of_int n"
  define F where "F = toDouble D"
  define G where "G = F * 100"
  define Y where "Y = toDouble G"
  have "s = 100 * n + k" by (simp add: n_def k_def)
  then have "(of_int s :: rat) = of_int (100 * n + k)" by simp
  then have sk: "(of_int s :: rat) = 100 * of_int n + of_int k" by simp
  have "0 \<le> k" "k \<le> 99" using pos_mod_bound[of 100 s] by (simp_all add: k_def)
  then have k: "(0::rat) \<le> of_int k" "(of_int k :: rat) \<le> 99" by simp_all
  have "1 \<le> s" using assms(1) False by simp
  then have s1: "(1::rat) \<le> of_int s" by simp
  have "(of_int s :: rat) < of_int (2 ^ 52)" using assms(2) by (simp only: of_int_less_iff)
  then have s2: "(of_int s :: rat) < 4503599627370496" by simp
  have x1pos: "0 < x1" using s1 by (simp add: x1_def)
  have x1hi: "x1 < 70368744177664" using s2 unfolding x1_def by linarith
  have a1: "\<bar>I1 - x1\<bar> \<le> 1 / 256"
  proof -
    have "\<bar>x1\<bar> < 2 powi (45 + 1)" using x1pos x1hi by simp
    from toDouble_error[OF this] show ?thesis by (simp add: I1_def)
  qed
  have nx: "of_int n \<le> x1" using sk k s1 unfolding x1_def by linarith
  have a2: "of_int n \<le> I1"
    unfolding I1_def
  proof (rule toDouble_ge_int)
    show "x1 \<noteq> 0" using x1pos by simp
    show "\<bar>x1\<bar> < 2 powi 53" using x1pos x1hi by simp
    show "of_int n \<le> x1" by (rule nx)
  qed
  have a3: "I1 < of_int n + 1" using a1 sk k s2 unfolding x1_def by linarith
  have w: "\<lfloor>I1\<rfloor> = n" using a2 a3 by (rule floor_unique)
  have d: "0 \<le> D" "D < 1" using a2 a3 by (simp_all add: D_def)
  have a4: "\<bar>F - D\<bar> \<le> 1 / 18014398509481984"
  proof -
    have "\<bar>D\<bar> < 2 powi (- 1 + 1)" using d by simp
    from toDouble_error[OF this] show ?thesis by (simp add: F_def)
  qed
  have a5: "\<bar>Y - G\<bar> \<le> 1 / 140737488355328"
  proof -
    have "\<bar>G\<bar> < 128" using a4 d unfolding G_def by linarith
    then have "\<bar>G\<bar> < 2 powi (6 + 1)" by simp
    from toDouble_error[OF this] show ?thesis by (simp add: Y_def)
  qed
  have near: "of_int k > Y - 1 / 2" "of_int k \<le> Y + 1 / 2"
    using a1 a4 a5 sk s1 s2 unfolding G_def D_def x1_def by linarith+
  have r: "round Y = k" using near by (rule round_unique)
  have id: "toDouble (of_int s) = of_int s"
    using assms by (intro toDouble_of_int) simp
  show ?thesis
    unfolding calculateDailyInterest_def Let_def dailyRate_value id
      x1_def[symmetric] I1_def[symmetric] w D_def[symmetric] F_def[symmetric]
      G_def[symmetric] Y_def[symmetric] r
    by (simp add: n_def k_def)
qed

lemma calculateDailyInterest_large:
  "calculateDailyInterest 5258323229127987 =
     \<lparr>wholeAmount = 52583232291279, newAccrued = 88\<rparr>"
proof -
  let ?c = "5764607523034235 / 576460752303423488 :: rat"
  have id: "toDouble (of_int 5258323229127987) = of_int 5258323229127987"
    by (rule toDouble_of_int) simp
  have i: "toDouble (of_int 5258323229127987 * ?c) = 420665858330239 / 8"
  proof -
    have "roundHalfEven (5258323229127987 * ?c / 2 powi (45 - 52)) = 6730653733283824"
      by (rule roundHalfEven_near) simp
    moreover have "toDouble (5258323229127987 * ?c) =
        of_int (roundHalfEven (5258323229127987 * ?c / 2 powi (45 - 52))) * 2 powi (45 - 52)"
      by (rule toDouble_eval) simp_all
    ultimately show ?thesis by simp
  qed
  have w: "\<lfloor>420665858330239 / 8 :: rat\<rfloor> = 52583232291279"
    by (rule floor_unique) simp_all
  have f: "toDouble (420665858330239 / 8 - of_int 52583232291279) = 7 / 8"
  proof -
    have "roundHalfEven (7 / 8 / 2 powi (- 1 - 52)) = 7881299347898368"
      by (rule roundHalfEven_near) simp
    moreover have "toDouble (7 / 8) =
        of_int (roundHalfEven (7 / 8 / 2 powi (- 1 - 52))) * 2 powi (- 1 - 52)"
      by (rule toDouble_eval) simp_all
    ultimately show ?thesis by simp
  qed
  have y: "toDouble (7 / 8 * 100) = 175 / 2"
  proof -
    have "roundHalfEven (175 / 2 / 2 powi (6 - 52)) = 6157265115545600"
      by (rule roundHalfEven_near) simp
    moreover have "toDouble (175 / 2) =
        of_int (roundHalfEven (175 / 2 / 2 powi (6 - 52))) * 2 powi (6 - 52)"
      by (rule toDouble_eval) simp_all
    ultimately show ?thesis by simp
  qed
  have r: "round (175 / 2 :: rat) = 88"
    by (rule round_unique) simp_all
  show ?thesis
    unfolding calculateDailyInterest_def Let_def dailyRate_value id i w f y r
    by (rule refl)
qed

text \<open>
  \<^bold>\<open>C6\<close>, as the code has it. The interest on 0, 100 and 250 is (0, 0), (1, 0) and
  (2, 50). For every integer savings balance \<open>s\<close> from 0 up to, but not including,
  \<open>2 ^ 52\<close>, the whole amount is the floor of \<open>s / 100\<close>, and the new accrued carry, read
  as hundredths, is the fractional part of \<open>s / 100\<close>; it lies between 0 and 99.
\<close>

theorem calculateDailyInterest_spec:
  "calculateDailyInterest 0 = \<lparr>wholeAmount = 0, newAccrued = 0\<rparr> \<and>
   calculateDailyInterest 100 = \<lparr>wholeAmount = 1, newAccrued = 0\<rparr> \<and>
   calculateDailyInterest 250 = \<lparr>wholeAmount = 2, newAccrued = 50\<rparr> \<and>
   (0 \<le> s \<and> s < 2 ^ 52 \<longrightarrow>
      wholeAmount (calculateDailyInterest s) = \<lfloor>(of_int s :: rat) * (1 / 100)\<rfloor> \<and>
      (of_int (newAccrued (calculateDailyInterest s)) :: rat) / 100 =
        frac ((of_int s :: rat) * (1 / 100)) \<and>
      0 \<le> newAccrued (calculateDailyInterest s) \<and> newAccrued (calculateDailyInterest s) \<le> 99)"
proof -
  have v: "calculateDailyInterest 0 = \<lparr>wholeAmount = 0, newAccrued = 0\<rparr> \<and>
     calculateDailyInterest 100 = \<lparr>wholeAmount = 1, newAccrued = 0\<rparr> \<and>
     calculateDailyInterest 250 = \<lparr>wholeAmount = 2, newAccrued = 50\<rparr>"
    by (simp add: calculateDailyInterest_below_2_52)
  have g: "wholeAmount (calculateDailyInterest s) = \<lfloor>(of_int s :: rat) * (1 / 100)\<rfloor> \<and>
      (of_int (newAccrued (calculateDailyInterest s)) :: rat) / 100 =
        frac ((of_int s :: rat) * (1 / 100)) \<and>
      0 \<le> newAccrued (calculateDailyInterest s) \<and> newAccrued (calculateDailyInterest s) \<le> 99"
    if "0 \<le> s" and "s < 2 ^ 52"
  proof -
    note eq = calculateDailyInterest_below_2_52[OF that]
    have w: "wholeAmount (calculateDailyInterest s) = \<lfloor>(of_int s :: rat) * (1 / 100)\<rfloor>"
      by (simp only: eq floor_hundredth Interest.simps)
    have "(of_int (s mod 100) :: rat) / 100 = frac ((of_int s :: rat) * (1 / 100))"
      unfolding frac_def floor_hundredth using hundredths_of_fraction[of s] by simp
    then have f: "(of_int (newAccrued (calculateDailyInterest s)) :: rat) / 100 =
        frac ((of_int s :: rat) * (1 / 100))"
      by (simp only: eq Interest.simps)
    have "s mod 100 \<le> 99" using pos_mod_bound[of 100 s] by simp
    then have b: "0 \<le> newAccrued (calculateDailyInterest s) \<and>
        newAccrued (calculateDailyInterest s) \<le> 99"
      by (simp add: eq)
    from w f b show ?thesis by blast
  qed
  from v g show ?thesis by blast
qed

theorem calculateDailyInterest_spec_witness:
  "(0::int) \<le> 4503599627370495 \<and> (4503599627370495::int) < 2 ^ 52 \<and>
   wholeAmount (calculateDailyInterest 4503599627370495) = 45035996273704 \<and>
   newAccrued (calculateDailyInterest 4503599627370495) = 95"
proof -
  have r: "(0::int) \<le> 4503599627370495 \<and> (4503599627370495::int) < 2 ^ 52" by simp
  with calculateDailyInterest_spec[of 4503599627370495]
  have w: "wholeAmount (calculateDailyInterest 4503599627370495) =
      \<lfloor>(of_int 4503599627370495 :: rat) * (1 / 100)\<rfloor>"
    and f: "(of_int (newAccrued (calculateDailyInterest 4503599627370495)) :: rat) / 100 =
      frac ((of_int 4503599627370495 :: rat) * (1 / 100))"
    by blast+
  have fl: "\<lfloor>(of_int 4503599627370495 :: rat) * (1 / 100)\<rfloor> = 45035996273704"
    by (simp only: floor_hundredth)
  have "frac ((of_int 4503599627370495 :: rat) * (1 / 100)) = 95 / 100"
    unfolding frac_def fl by simp
  with f have "(of_int (newAccrued (calculateDailyInterest 4503599627370495)) :: rat) = 95"
    by simp
  then have "newAccrued (calculateDailyInterest 4503599627370495) = 95"
    by (simp only: of_int_eq_numeral_iff)
  with r w fl show ?thesis by simp
qed

text \<open>
  Beyond \<open>2 ^ 52\<close> the doubles near \<open>s / 100\<close> lie too far apart for the carry. At
  \<open>s = 5258323229127987\<close> the product is rounded to \<open>52583232291279.875\<close>, so that the
  carry is the rounding of 87.5, which is 88, while the fractional part of \<open>s / 100\<close> is
  87 hundredths.
\<close>

theorem calculateDailyInterest_counterexample:
  "newAccrued (calculateDailyInterest 5258323229127987) = 88 \<and>
   frac ((of_int 5258323229127987 :: rat) * (1 / 100)) = 87 / 100 \<and>
   (of_int (newAccrued (calculateDailyInterest 5258323229127987)) :: rat) / 100 \<noteq>
     frac ((of_int 5258323229127987 :: rat) * (1 / 100))"
proof -
  have n: "newAccrued (calculateDailyInterest 5258323229127987) = 88"
    by (simp only: calculateDailyInterest_large Interest.simps)
  have fl: "\<lfloor>(of_int 5258323229127987 :: rat) * (1 / 100)\<rfloor> = 52583232291279"
    by (simp only: floor_hundredth)
  have f: "frac ((of_int 5258323229127987 :: rat) * (1 / 100)) = 87 / 100"
    unfolding frac_def fl by simp
  show ?thesis unfolding n f by simp
qed

subsection \<open>Cancelling a spend request\<close>

text \<open>
  \<^bold>\<open>C10.\<close> \<open>cancelSpendRequest\<close> keeps exactly the pending requests whose id differs
  from the given one, in their order; when no pending request has that id the state is
  returned as it was. Children, vault, transaction log and request history are as
  before, and so is every other component of the state: in particular the cancelled
  request is not recorded in the history.
\<close>

theorem cancelSpendRequest_frame:
  "pendingRequests (cancelSpendRequest rid st) =
     filter (\<lambda>r. r_id r \<noteq> rid) (pendingRequests st) \<and>
   (\<forall>r. r \<in> set (pendingRequests (cancelSpendRequest rid st)) \<longleftrightarrow>
          r \<in> set (pendingRequests st) \<and> r_id r \<noteq> rid) \<and>
   ((\<forall>r \<in> set (pendingRequests st). r_id r \<noteq> rid) \<longrightarrow> cancelSpendRequest rid st = st) \<and>
   children (cancelSpendRequest rid st) = children st \<and>
   vault (cancelSpendRequest rid st) = vault st \<and>
   transactions (cancelSpendRequest rid st) = transactions st \<and>
   requestHistory (cancelSpendRequest rid st) = requestHistory st \<and>
   cancelSpendRequest rid st = st\<lparr>pendingRequests := pendingRequests (cancelSpendRequest rid st)\<rparr>"
proof -
  have "(\<forall>r \<in> set (pendingRequests st). r_id r \<noteq> rid) \<longrightarrow>
      filter (\<lambda>r. r_id r \<noteq> rid) (pendingRequests st) = pendingRequests st"
    by (simp add: filter_id_conv)
  then show ?thesis by (auto simp: cancelSpendRequest_def)
qed

theorem cancelSpendRequest_frame_witness:
  "pendingRequests (cancelSpendRequest ''req-1'' (demoState\<lparr>pendingRequests := [demoRequest]\<rparr>)) = [] \<and>
   requestHistory (cancelSpendRequest ''req-1'' (demoState\<lparr>pendingRequests := [demoRequest]\<rparr>)) = [] \<and>
   r_id demoRequest \<noteq> ''req-9'' \<and>
   cancelSpendRequest ''req-9'' (demoState\<lparr>pendingRequests := [demoRequest]\<rparr>) =
     demoState\<lparr>pendingRequests := [demoRequest]\<rparr>"
  using cancelSpendRequest_frame[of "''req-1''" "demoState\<lparr>pendingRequests := [demoRequest]\<rparr>"]
    cancelSpendRequest_frame[of "''req-9''" "demoState\<lparr>pendingRequests := [demoRequest]\<rparr>"]
  by (simp add: demoRequest_def demoState_def)

subsection \<open>Vault adjustments\<close>

text \<open>
  \<^bold>\<open>C9\<close>, as the code has it. In a state whose vault balance lies within
  \<open>[0, maxBalance]\<close> (with \<open>maxBalance\<close> the constant \<open>VAULT_MAX\<close>, as in every vault the
  store creates): for every amount that is not negative, \<open>addToVault\<close> sets the balance
  to the sum capped at \<open>maxBalance\<close>, which lies within \<open>[0, maxBalance]\<close>;
  \<open>removeFromVault\<close> returns false and the unchanged state whenever the amount exceeds
  the balance, and otherwise, for an amount that is not negative, returns true with the
  balance reduced by the amount, again within \<open>[0, maxBalance]\<close>. After
  \<open>removeFromVault\<close> the balance is never negative, whatever the amount.
\<close>

theorem vault_adjust_bounds:
  assumes "v_maxBalance (vault st) = VAULT_MAX"
    and "0 \<le> v_balance (vault st)" and "v_balance (vault st) \<le> v_maxBalance (vault st)"
  shows
    "(0 \<le> amount \<longrightarrow>
        v_balance (vault (addToVault amount st)) =
          min (v_maxBalance (vault st)) (v_balance (vault st) + amount) \<and>
        0 \<le> v_balance (vault (addToVault amount st)) \<and>
        v_balance (vault (addToVault amount st)) \<le> v_maxBalance (vault (addToVault amount st))) \<and>
     (v_balance (vault st) < amount \<longrightarrow> removeFromVault amount st = (False, st)) \<and>
     (0 \<le> amount \<and> amount \<le> v_balance (vault st) \<longrightarrow>
        fst (removeFromVault amount st) \<and>
        v_balance (vault (snd (removeFromVault amount st))) = v_balance (vault st) - amount \<and>
        v_balance (vault (snd (removeFromVault amount st))) \<le>
          v_maxBalance (vault (snd (removeFromVault amount st)))) \<and>
     0 \<le> v_balance (vault (snd (removeFromVault amount st)))"
  using assms by (auto simp: addToVault_def removeFromVault_def)

theorem vault_adjust_bounds_witness:
  "v_balance (vault (addToVault 500 demoState)) = 1000 \<and>
   removeFromVault 701 demoState = (False, demoState) \<and>
   fst (removeFromVault 700 demoState) \<and>
   v_balance (vault (snd (removeFromVault 700 demoState))) = 0"
proof -
  have a: "v_maxBalance (vault demoState) = VAULT_MAX" by (simp add: demoState_def VAULT_MAX_def)
  have b: "0 \<le> v_balance (vault demoState)" by (simp add: demoState_def)
  have c: "v_balance (vault demoState) \<le> v_maxBalance (vault demoState)" by (simp add: demoState_def)
  show ?thesis
    using vault_adjust_bounds[OF a b c, of 500] vault_adjust_bounds[OF a b c, of 701]
      vault_adjust_bounds[OF a b c, of 700]
    by (simp add: demoState_def)
qed

text \<open>
  For every amount the claim does not hold: \<open>addToVault\<close> has no lower clamp, so a
  negative amount takes the balance below 0, and \<open>removeFromVault\<close> of a negative
  amount takes it above \<open>maxBalance\<close>.
\<close>

theorem vault_adjust_counterexample:
  "v_balance (vault (addToVault (- 2000) demoState)) < 0 \<and>
   v_balance (vault (snd (removeFromVault (- 500) demoState))) > v_maxBalance (vault demoState)"
  by (simp add: addToVault_def removeFromVault_def demoState_def VAULT_MAX_def)

subsection \<open>Daily reset\<close>

lemma day_bounds:
  fixes n :: int
  shows "n div 86400000 * 86400000 \<le> n" and "n < n div 86400000 * 86400000 + 86400000"
proof -
  have "n = n div 86400000 * 86400000 + n mod 86400000" by simp
  moreover have "0 \<le> n mod 86400000" "n mod 86400000 < 86400000" by simp_all
  ultimately show "n div 86400000 * 86400000 \<le> n"
    and "n < n div 86400000 * 86400000 + 86400000" by linarith+
qed

lemma not_shouldResetToday_today:
  assumes "tzOffset e \<le> 22 * MS_PER_HOUR"
  shows "\<not> shouldResetToday e (getTodayDate e)"
proof -
  define n z U L where "n = now e" and "z = tzOffset e" and "U = n div 86400000"
    and "L = (n + z) div 86400000"
  have z: "z \<le> 79200000" using assms by (simp add: z_def MS_PER_HOUR_def)
  have u: "U * 86400000 \<le> n" "n < U * 86400000 + 86400000"
    unfolding U_def by (rule day_bounds)+
  have l: "L * 86400000 \<le> n + z" "n + z < L * 86400000 + 86400000"
    unfolding L_def by (rule day_bounds)+
  have 1: "\<not> (L * 86400000 + 79200000 - z \<le> n \<and> U < L)"
    using z u l by linarith
  have 2: "\<not> U < L - 1"
    using z u l by linarith
  have "shouldResetToday e (getTodayDate e) =
      ((L * 86400000 + 79200000 - z \<le> n \<and> U < L) \<or> U < L - 1)"
    unfolding shouldResetToday_def getTodayDate_def localInstant_def localDay_def Let_def
      RESET_HOUR_def MS_PER_DAY_def MS_PER_HOUR_def n_def z_def U_def L_def
    by auto
  with 1 2 show ?thesis by blast
qed

lemma checkAndPerformDailyReset_idle:
  assumes "\<not> shouldResetToday e (lastResetDate st)"
  shows "checkAndPerformDailyReset e st =
    (\<lparr>didReset = False, earningsDeposited = None, interestEarned = None\<rparr>, st)"
  using assms by (simp add: checkAndPerformDailyReset_def)

lemma checkAndPerformDailyReset_due:
  assumes "shouldResetToday e (lastResetDate st)"
  shows "didReset (fst (checkAndPerformDailyReset e st))"
    and "lastResetDate (snd (checkAndPerformDailyReset e st)) = getTodayDate e"
  using assms by (simp_all add: checkAndPerformDailyReset_def Let_def split_beta)

text \<open>
  \<^bold>\<open>C4.\<close> Wherever local time is at most 22 hours ahead of UTC (every time zone is:
  offsets range from \<open>-12\<close> to \<open>+14\<close> hours), two calls of
  \<open>checkAndPerformDailyReset\<close> in immediate succession, at one reading of the clock,
  reset at most once: the second call reports \<open>didReset = False\<close> and returns the state
  it was given. The first call resets exactly when \<open>shouldResetToday\<close> holds of the
  stored \<open>lastResetDate\<close>, and then sets \<open>lastResetDate\<close> to today.
\<close>

theorem reset_idempotent:
  assumes "tzOffset e \<le> 22 * MS_PER_HOUR"
  shows "(let (r1, st1) = checkAndPerformDailyReset e st;
              (r2, st2) = checkAndPerformDailyReset e st1
          in \<not> didReset r2 \<and> st2 = st1 \<and>
             (didReset r1 \<longleftrightarrow> shouldResetToday e (lastResetDate st)) \<and>
             (didReset r1 \<longrightarrow> lastResetDate st1 = getTodayDate e))"
proof -
  obtain r1 st1 where c1: "checkAndPerformDailyReset e st = (r1, st1)" by fastforce
  have idle: "\<not> shouldResetToday e (lastResetDate st1)"
  proof (cases "shouldResetToday e (lastResetDate st)")
    case True
    then have "lastResetDate st1 = getTodayDate e"
      using checkAndPerformDailyReset_due(2)[of e st] c1 by simp
    then show ?thesis using not_shouldResetToday_today[OF assms] by simp
  next
    case False
    then show ?thesis using checkAndPerformDailyReset_idle[of e st] c1 by simp
  qed
  have r1: "didReset r1 \<longleftrightarrow> shouldResetToday e (lastResetDate st)"
  proof (cases "shouldResetToday e (lastResetDate st)")
    case True
    then show ?thesis using checkAndPerformDailyReset_due(1)[of e st] c1 by simp
  next
    case False
    then show ?thesis using checkAndPerformDailyReset_idle[of e st] c1 by simp
  qed
  have d: "didReset r1 \<longrightarrow> lastResetDate st1 = getTodayDate e"
    using r1 checkAndPerformDailyReset_due(2)[of e st] c1 by simp
  show ?thesis
    using r1 d by (simp add: c1 checkAndPerformDailyReset_idle[OF idle])
qed

lemma demo_reset_due: "shouldResetToday demoEnv (lastResetDate demoState)"
  by (simp add: shouldResetToday_def localInstant_def localDay_def Let_def RESET_HOUR_def
      MS_PER_DAY_def MS_PER_HOUR_def demoEnv_def demoState_def)

theorem reset_idempotent_witness:
  "tzOffset demoEnv \<le> 22 * MS_PER_HOUR \<and>
   didReset (fst (checkAndPerformDailyReset demoEnv demoState)) \<and>
   lastResetDate (snd (checkAndPerformDailyReset demoEnv demoState)) = 19675 \<and>
   \<not> didReset (fst (checkAndPerformDailyReset demoEnv
        (snd (checkAndPerformDailyReset demoEnv demoState)))) \<and>
   snd (checkAndPerformDailyReset demoEnv (snd (checkAndPerformDailyReset demoEnv demoState))) =
     snd (checkAndPerformDailyReset demoEnv demoState)"
proof -
  have tz: "tzOffset demoEnv \<le> 22 * MS_PER_HOUR"
    by (simp add: demoEnv_def MS_PER_HOUR_def)
  from reset_idempotent[OF tz, of demoState] demo_reset_due tz
  show ?thesis by (simp add: split_beta Let_def demo_today)
qed

subsection \<open>Approving and denying a spend request\<close>

lemma denyRequest_found:
  assumes "find (\<lambda>r. r_id r = rid) (pendingRequests st) = Some request"
  shows "denyRequest e rid st =
    st\<lparr>pendingRequests := filter (\<lambda>r. r_id r \<noteq> rid) (pendingRequests st),
       requestHistory :=
         request\<lparr>r_status := denied, r_respondedAt := Some (now e)\<rparr> # requestHistory st\<rparr>"
  by (simp add: denyRequest_def assms)

lemma approveRequest_done:
  assumes "find (\<lambda>r. r_id r = rid) (pendingRequests st) = Some request"
    and "find (\<lambda>c. cp_id c = r_childId request) (children st) = Some ch"
    and "r_totalCost request \<le> cp_balance ch"
  shows "approveRequest e rid st =
    (succeeded MsgApproved,
     st\<lparr>pendingRequests := filter (\<lambda>r. r_id r \<noteq> rid) (pendingRequests st),
        requestHistory :=
          request\<lparr>r_status := approved, r_respondedAt := Some (now e)\<rparr> # requestHistory st,
        approvedNotifications :=
          \<lparr>n_requestId = r_id request, n_items = r_items request,
           n_totalCost = r_totalCost request, n_approvedAt = now e,
           n_shownToChild = False\<rparr> # approvedNotifications st,
        children :=
          map (\<lambda>c. if cp_id c = cp_id ch
                    then c\<lparr>cp_balance := cp_balance c - r_totalCost request,
                           cp_totalSpent := cp_totalSpent c + r_totalCost request\<rparr>
                    else c)
            (children st),
        vault :=
          (vault st)\<lparr>v_balance := min VAULT_MAX (v_balance (vault st) + r_totalCost request)\<rparr>,
        transactions :=
          \<lparr>x_id = ''txn-'' @ generateId e 0, x_childId = cp_id ch, x_type = spend,
           x_amount = - r_totalCost request,
           x_description = DescSpent (map ri_name (r_items request)),
           x_timestamp = now e\<rparr> # transactions st\<rparr>)"
  using assms(3) by (simp add: approveRequest_def assms(1,2) Let_def)

text \<open>
  \<^bold>\<open>C5\<close>, as the code has it. \<open>approveRequest\<close> fails and returns the state unchanged
  when no pending request has the id, and also when no child has the request's
  \<open>childId\<close>. When the request's total cost exceeds the child's balance it reports
  failure and the state is the one \<open>denyRequest\<close> gives: the request has left the pending
  list and heads the history with status \<open>denied\<close>; children, vault, log and
  notifications are as before. Otherwise it succeeds: the child's balance goes down and
  its \<open>totalSpent\<close> up by the total cost, the vault balance becomes the old balance plus
  the total cost capped at \<open>VAULT_MAX\<close>, the log gains exactly one \<open>spend\<close> entry for the
  child with amount minus the total cost, the request leaves the pending list and heads
  the history with status \<open>approved\<close>, and one notification for the request with
  \<open>shownToChild = False\<close> is added.
\<close>

theorem approveRequest_spec:
  "(case find (\<lambda>r. r_id r = rid) (pendingRequests st) of
      None \<Rightarrow> \<exists>res. approveRequest e rid st = (res, st) \<and> \<not> success res
    | Some request \<Rightarrow>
        (case find (\<lambda>c. cp_id c = r_childId request) (children st) of
           None \<Rightarrow> \<exists>res. approveRequest e rid st = (res, st) \<and> \<not> success res
         | Some ch \<Rightarrow>
             if r_totalCost request > cp_balance ch
             then \<exists>res st'. approveRequest e rid st = (res, st') \<and> \<not> success res \<and>
                    st' = denyRequest e rid st \<and>
                    pendingRequests st' = filter (\<lambda>r. r_id r \<noteq> rid) (pendingRequests st) \<and>
                    requestHistory st' =
                      request\<lparr>r_status := denied, r_respondedAt := Some (now e)\<rparr> #
                        requestHistory st \<and>
                    children st' = children st \<and> vault st' = vault st \<and>
                    transactions st' = transactions st \<and>
                    approvedNotifications st' = approvedNotifications st
             else \<exists>res st'. approveRequest e rid st = (res, st') \<and> success res \<and>
                    children st' =
                      map (\<lambda>c. if cp_id c = cp_id ch
                               then c\<lparr>cp_balance := cp_balance c - r_totalCost request,
                                      cp_totalSpent := cp_totalSpent c + r_totalCost request\<rparr>
                               else c)
                        (children st) \<and>
                    find (\<lambda>c. cp_id c = r_childId request) (children st') =
                      Some (ch\<lparr>cp_balance := cp_balance ch - r_totalCost request,
                               cp_totalSpent := cp_totalSpent ch + r_totalCost request\<rparr>) \<and>
                    vault st' =
                      (vault st)\<lparr>v_balance :=
                        min VAULT_MAX (v_balance (vault st) + r_totalCost request)\<rparr> \<and>
                    (\<exists>x. transactions st' = x # transactions st \<and> x_type x = spend \<and>
                         x_childId x = cp_id ch \<and> x_amount x = - r_totalCost request) \<and>
                    pendingRequests st' = filter (\<lambda>r. r_id r \<noteq> rid) (pendingRequests st) \<and>
                    requestHistory st' =
                      request\<lparr>r_status := approved, r_respondedAt := Some (now e)\<rparr> #
                        requestHistory st \<and>
                    (\<exists>n. approvedNotifications st' = n # approvedNotifications st \<and>
                         n_requestId n = r_id request \<and> n_items n = r_items request \<and>
                         n_totalCost n = r_totalCost request \<and> \<not> n_shownToChild n)))"
proof (cases "find (\<lambda>r. r_id r = rid) (pendingRequests st)")
  case None
  then show ?thesis by (simp add: approveRequest_def failure_def)
next
  case req: (Some request)
  show ?thesis
  proof (cases "find (\<lambda>c. cp_id c = r_childId request) (children st)")
    case None
    then show ?thesis by (simp add: req approveRequest_def failure_def)
  next
    case chd: (Some ch)
    show ?thesis
    proof (cases "r_totalCost request > cp_balance ch")
      case True
      then have "approveRequest e rid st = (failure MsgNoLongerEnough, denyRequest e rid st)"
        by (simp add: approveRequest_def req chd)
      then show ?thesis
        using True by (simp add: req chd denyRequest_found[OF req] failure_def)
    next
      case False
      then have le: "r_totalCost request \<le> cp_balance ch" by simp
      let ?f = "\<lambda>c. if cp_id c = cp_id ch
                     then c\<lparr>cp_balance := cp_balance c - r_totalCost request,
                            cp_totalSpent := cp_totalSpent c + r_totalCost request\<rparr>
                     else c"
      have id: "cp_id ch = r_childId request" using chd by (auto simp: find_Some_iff)
      have "find (\<lambda>c. cp_id c = r_childId request) (map ?f (children st)) =
          map_option ?f (find (\<lambda>c. cp_id c = r_childId request) (children st))"
        by (rule find_map_pres) simp
      then have f: "find (\<lambda>c. cp_id c = r_childId request) (map ?f (children st)) =
          Some (ch\<lparr>cp_balance := cp_balance ch - r_totalCost request,
                   cp_totalSpent := cp_totalSpent ch + r_totalCost request\<rparr>)"
        by (simp add: chd)
      show ?thesis
        using False f by (simp add: req chd approveRequest_done[OF req chd le] succeeded_def)
    qed
  qed
qed

theorem approveRequest_spec_witness:
  "\<exists>res st'. approveRequest demoEnv ''req-1'' demoPending = (res, st') \<and> success res \<and>
      find (\<lambda>c. cp_id c = ''child-1'') (children st') =
        Some (demoChild\<lparr>cp_balance := 30, cp_totalSpent := 20\<rparr>) \<and>
      v_balance (vault st') = 720 \<and>
      (\<exists>x. transactions st' = [x] \<and> x_type x = spend \<and> x_amount x = - 20) \<and>
      pendingRequests st' = [] \<and>
      (\<exists>h. requestHistory st' = [h] \<and> r_id h = ''req-1'' \<and> r_status h = approved) \<and>
      (\<exists>n. approvedNotifications st' = [n] \<and> n_requestId n = ''req-1'' \<and> \<not> n_shownToChild n)"
proof -
  have r: "find (\<lambda>r. r_id r = ''req-1'') (pendingRequests demoPending) = Some demoRequest"
    by (simp add: demoPending_def demoRequest_def)
  have c: "find (\<lambda>c. cp_id c = r_childId demoRequest) (children demoPending) = Some demoChild"
    by (simp add: demoPending_def demoState_def demoRequest_def demoChild_def)
  have g: "\<not> r_totalCost demoRequest > cp_balance demoChild"
    by (simp add: demoRequest_def demoChild_def)
  note T = approveRequest_spec[where rid = "''req-1''" and st = demoPending and e = demoEnv]
  from T g obtain res st' where
    "approveRequest demoEnv ''req-1'' demoPending = (res, st')" "success res"
    "find (\<lambda>c. cp_id c = r_childId demoRequest) (children st') =
        Some (demoChild\<lparr>cp_balance := cp_balance demoChild - r_totalCost demoRequest,
                 cp_totalSpent := cp_totalSpent demoChild + r_totalCost demoRequest\<rparr>)"
    "vault st' = (vault demoPending)\<lparr>v_balance :=
        min VAULT_MAX (v_balance (vault demoPending) + r_totalCost demoRequest)\<rparr>"
    "\<exists>x. transactions st' = x # transactions demoPending \<and> x_type x = spend \<and>
         x_childId x = cp_id demoChild \<and> x_amount x = - r_totalCost demoRequest"
    "pendingRequests st' = filter (\<lambda>r. r_id r \<noteq> ''req-1'') (pendingRequests demoPending)"
    "requestHistory st' =
        demoRequest\<lparr>r_status := approved, r_respondedAt := Some (now demoEnv)\<rparr> #
          requestHistory demoPending"
    "\<exists>n. approvedNotifications st' = n # approvedNotifications demoPending \<and>
         n_requestId n = r_id demoRequest \<and> n_items n = r_items demoRequest \<and>
         n_totalCost n = r_totalCost demoRequest \<and> \<not> n_shownToChild n"
    unfolding r c option.case by (simp only: if_False) blast
  then show ?thesis
    by (auto simp: demoPending_def demoState_def demoRequest_def demoChild_def VAULT_MAX_def)
qed

text \<open>
  The claim without the two amendments fails: with the vault at its maximum an approved
  request of 20 credits the vault by nothing, and a request whose child is gone is
  neither approved nor denied.
\<close>

theorem approveRequest_counterexample:
  "success (fst (approveRequest demoEnv ''req-1'' demoFullVault)) \<and>
   r_totalCost demoRequest = 20 \<and>
   v_balance (vault demoFullVault) = 1000 \<and>
   v_balance (vault (snd (approveRequest demoEnv ''req-1'' demoFullVault))) = 1000 \<and>
   find (\<lambda>r. r_id r = ''req-1'') (pendingRequests demoOrphanRequest) =
     Some (demoRequest\<lparr>r_childId := ''child-9''\<rparr>) \<and>
   approveRequest demoEnv ''req-1'' demoOrphanRequest =
     (failure MsgChildNotFound, demoOrphanRequest)"
  by (simp add: approveRequest_def demoFullVault_def demoOrphanRequest_def demoPending_def
      demoState_def demoRequest_def demoChild_def demoItem_def succeeded_def VAULT_MAX_def Let_def)

subsection \<open>What every action keeps\<close>

text \<open>
  No action adds, removes, reorders or renames a child, or changes the selected child:
  the acting child keeps its id. With a child to act for, no action throws.
\<close>

lemma resetChild_id: "cp_id (fst (resetChild e today c acc)) = cp_id c"
  by (simp add: resetChild_def Let_def)

lemma resetChildren_ids: "map cp_id (fst (resetChildren e today cs acc)) = map cp_id cs"
  by (induction cs arbitrary: acc) (simp_all add: split_beta Let_def resetChild_id)

lemma children_completeTask:
  assumes "completeTask e taskId st = Some (res, st')"
  shows "map cp_id (children st') = map cp_id (children st) \<and>
         currentChildId st' = currentChildId st \<and> pendingRequests st' = pendingRequests st"
  using assms
  by (auto simp: completeTask_def Let_def o_def split: option.splits if_splits)

lemma children_undoTaskCompletion:
  "map cp_id (children (snd (undoTaskCompletion taskId st))) = map cp_id (children st) \<and>
   currentChildId (snd (undoTaskCompletion taskId st)) = currentChildId st \<and>
   pendingRequests (snd (undoTaskCompletion taskId st)) = pendingRequests st"
  by (auto simp: undoTaskCompletion_def Let_def o_def split: option.splits if_splits)

lemma children_addStrike:
  assumes "addStrike e reason st = Some (res, st')"
  shows "map cp_id (children st') = map cp_id (children st) \<and>
         currentChildId st' = currentChildId st \<and> pendingRequests st' = pendingRequests st"
  using assms
  by (auto simp: addStrike_def Let_def o_def split: option.splits if_splits)

lemma children_checkAndPerformDailyReset:
  "map cp_id (children (snd (checkAndPerformDailyReset e st))) = map cp_id (children st) \<and>
   currentChildId (snd (checkAndPerformDailyReset e st)) = currentChildId st \<and>
   pendingRequests (snd (checkAndPerformDailyReset e st)) = pendingRequests st"
  by (simp add: checkAndPerformDailyReset_def Let_def split_beta resetChildren_ids)

lemma children_depositToSavings:
  assumes "depositToSavings e amount st = Some (res, st')"
  shows "map cp_id (children st') = map cp_id (children st) \<and>
         currentChildId st' = currentChildId st \<and> pendingRequests st' = pendingRequests st"
  using assms
  by (auto simp: depositToSavings_def Let_def o_def split: option.splits if_splits)

lemma children_withdrawFromSavings:
  assumes "withdrawFromSavings e amount st = Some (res, st')"
  shows "map cp_id (children st') = map cp_id (children st) \<and>
         currentChildId st' = currentChildId st \<and> pendingRequests st' = pendingRequests st"
  using assms
  by (auto simp: withdrawFromSavings_def Let_def o_def split: option.splits if_splits)

lemma children_createSpendRequest:
  assumes "createSpendRequest e items st = Some (res, st')"
  shows "children st' = children st \<and> currentChildId st' = currentChildId st"
  using assms
  by (auto simp: createSpendRequest_def Let_def split: option.splits if_splits)

lemma children_denyRequest:
  "children (denyRequest e rid st) = children st \<and>
   currentChildId (denyRequest e rid st) = currentChildId st"
  by (simp add: denyRequest_def Let_def split: option.splits)

lemma children_approveRequest:
  "map cp_id (children (snd (approveRequest e rid st))) = map cp_id (children st) \<and>
   currentChildId (snd (approveRequest e rid st)) = currentChildId st"
  by (auto simp: approveRequest_def Let_def o_def children_denyRequest
      split: option.splits if_splits)

lemma act_ids:
  assumes "act a st = Some st'"
  shows "map cp_id (children st') = map cp_id (children st) \<and>
         currentChildId st' = currentChildId st"
proof (cases a)
  case (CompleteTask e taskId)
  then show ?thesis using assms children_completeTask by auto
next
  case (UndoTaskCompletion taskId)
  then show ?thesis using assms children_undoTaskCompletion by auto
next
  case (AddStrike e reason)
  then show ?thesis using assms children_addStrike by auto
next
  case (RemoveStrike x)
  then show ?thesis using assms by (auto simp: removeStrike_def)
next
  case ResetStrikes
  then show ?thesis using assms by (auto simp: resetStrikes_def)
next
  case (DailyReset e)
  then show ?thesis using assms children_checkAndPerformDailyReset by auto
next
  case (DepositToSavings e amount)
  then show ?thesis using assms children_depositToSavings by auto
next
  case (WithdrawFromSavings e amount)
  then show ?thesis using assms children_withdrawFromSavings by auto
next
  case (CreateSpendRequest e items)
  then show ?thesis using assms children_createSpendRequest by auto
next
  case (CancelSpendRequest x)
  then show ?thesis using assms by (auto simp: cancelSpendRequest_def)
next
  case (ApproveRequest e rid)
  then show ?thesis using assms children_approveRequest by auto
next
  case (DenyRequest e rid)
  then show ?thesis using assms children_denyRequest by auto
next
  case (AddToVault x)
  then show ?thesis using assms by (auto simp: addToVault_def)
next
  case (RemoveFromVault x)
  then show ?thesis using assms by (auto simp: removeFromVault_def)
qed

lemma find_map_comp: "find P (map f xs) = map_option f (find (\<lambda>x. P (f x)) xs)"
  by (induction xs) simp_all

lemma currentChild_id_by_ids:
  "map_option cp_id (getCurrentChild st) =
     (case find (\<lambda>i. i = currentChildId st) (map cp_id (children st)) of
        Some i \<Rightarrow> Some i
      | None \<Rightarrow> (case map cp_id (children st) of [] \<Rightarrow> None | i # _ \<Rightarrow> Some i))"
  unfolding getCurrentChild_def
  by (simp add: find_map_comp split: option.splits list.splits)

lemma act_current_id:
  assumes "act a st = Some st'"
  shows "map_option cp_id (getCurrentChild st') = map_option cp_id (getCurrentChild st)"
  using act_ids[OF assms] by (simp add: currentChild_id_by_ids split: option.splits)

lemma act_total:
  assumes "getCurrentChild st = Some ch"
  shows "\<exists>st'. act a st = Some st'"
proof (cases a)
  case (CompleteTask e taskId)
  then show ?thesis
    by (simp add: completeTask_def assms todayStrikeCount_Some Let_def split: option.splits)
next
  case (AddStrike e reason)
  then show ?thesis by (simp add: addStrike_def assms Let_def)
next
  case (CreateSpendRequest e items)
  then show ?thesis by (simp add: createSpendRequest_def assms Let_def)
next
  case (DepositToSavings e amount)
  then show ?thesis by (simp add: depositToSavings_def assms Let_def)
next
  case (WithdrawFromSavings e amount)
  then show ?thesis by (simp add: withdrawFromSavings_def assms Let_def)
qed simp_all

subsection \<open>One pending request per child\<close>

lemma pending_completeTask:
  assumes "completeTask e taskId st = Some (res, st')"
  shows "pendingRequests st' = pendingRequests st"
  using children_completeTask[OF assms] by simp

lemma pending_addStrike:
  assumes "addStrike e reason st = Some (res, st')"
  shows "pendingRequests st' = pendingRequests st"
  using children_addStrike[OF assms] by simp

lemma find_None_filter:
  assumes "find (\<lambda>r. r_id r = rid) rs = None"
  shows "filter (\<lambda>r. r_id r \<noteq> rid) rs = rs"
  using assms by (simp add: find_None_iff filter_id_conv)

lemma pending_denyRequest:
  "pendingRequests (denyRequest e rid st) = filter (\<lambda>r. r_id r \<noteq> rid) (pendingRequests st)"
  by (simp add: denyRequest_def Let_def find_None_filter split: option.splits)

lemma pending_approveRequest:
  "pendingRequests (snd (approveRequest e rid st)) = pendingRequests st \<or>
   pendingRequests (snd (approveRequest e rid st)) =
     filter (\<lambda>r. r_id r \<noteq> rid) (pendingRequests st)"
  by (simp add: approveRequest_def Let_def pending_denyRequest split: option.splits)

lemma pending_createSpendRequest:
  assumes "createSpendRequest e items st = Some (res, st')"
  shows "pendingRequests st' = pendingRequests st \<or>
    (\<exists>ch new. getCurrentChild st = Some ch \<and> pendingFor (cp_id ch) st = [] \<and>
       r_childId new = cp_id ch \<and> pendingRequests st' = pendingRequests st @ [new])"
  using assms
  by (auto simp: createSpendRequest_def Let_def pendingFor_def split: option.splits if_splits)

lemma act_pending:
  assumes "act a st = Some st'"
  shows "pendingRequests st' = pendingRequests st \<or>
    (\<exists>rid. resolves rid a \<and>
       pendingRequests st' = filter (\<lambda>r. r_id r \<noteq> rid) (pendingRequests st)) \<or>
    (\<exists>ch new. getCurrentChild st = Some ch \<and> pendingFor (cp_id ch) st = [] \<and>
       r_childId new = cp_id ch \<and> pendingRequests st' = pendingRequests st @ [new])"
proof (cases a)
  case (CompleteTask e taskId)
  then show ?thesis using assms pending_completeTask by auto
next
  case (UndoTaskCompletion taskId)
  then show ?thesis using assms children_undoTaskCompletion by auto
next
  case (AddStrike e reason)
  then show ?thesis using assms pending_addStrike by auto
next
  case (RemoveStrike x)
  then show ?thesis using assms by (auto simp: removeStrike_def)
next
  case ResetStrikes
  then show ?thesis using assms by (auto simp: resetStrikes_def)
next
  case (DailyReset e)
  then show ?thesis using assms children_checkAndPerformDailyReset by auto
next
  case (DepositToSavings e amount)
  then show ?thesis using assms children_depositToSavings by auto
next
  case (WithdrawFromSavings e amount)
  then show ?thesis using assms children_withdrawFromSavings by auto
next
  case (CreateSpendRequest e items)
  with assms obtain res where "createSpendRequest e items st = Some (res, st')" by auto
  from pending_createSpendRequest[OF this] show ?thesis by blast
next
  case (CancelSpendRequest rid)
  then show ?thesis using assms by (auto simp: cancelSpendRequest_def)
next
  case (ApproveRequest e rid)
  then show ?thesis using assms pending_approveRequest[of e rid st] by auto
next
  case (DenyRequest e rid)
  then show ?thesis using assms pending_denyRequest by auto
next
  case (AddToVault x)
  then show ?thesis using assms by (auto simp: addToVault_def)
next
  case (RemoveFromVault x)
  then show ?thesis using assms by (auto simp: removeFromVault_def)
qed

lemma act_exclusive:
  assumes "\<forall>cid. length (pendingFor cid st) \<le> 1" and "act a st = Some st'"
  shows "\<forall>cid. length (pendingFor cid st') \<le> 1"
proof
  fix cid
  have same: "length (pendingFor cid st') \<le> 1" if "pendingRequests st' = pendingRequests st"
    using that assms(1) by (simp add: pendingFor_def)
  have fewer: "length (pendingFor cid st') \<le> 1"
    if "pendingRequests st' = filter (\<lambda>r. r_id r \<noteq> rid) (pendingRequests st)" for rid
  proof -
    have "pendingFor cid st' = filter (\<lambda>r. r_id r \<noteq> rid) (pendingFor cid st)"
      unfolding pendingFor_def that by (simp add: conj_commute)
    then have "length (pendingFor cid st') \<le> length (pendingFor cid st)" by simp
    then show ?thesis using assms(1) le_trans by blast
  qed
  have more: "length (pendingFor cid st') \<le> 1"
    if "pendingFor (cp_id ch) st = []" "r_childId new = cp_id ch"
      "pendingRequests st' = pendingRequests st @ [new]" for ch new
  proof (cases "cid = cp_id ch")
    case True
    then show ?thesis using that by (simp add: pendingFor_def)
  next
    case False
    then have "pendingFor cid st' = pendingFor cid st"
      using that by (simp add: pendingFor_def)
    then show ?thesis using assms(1) by simp
  qed
  from act_pending[OF assms(2)] show "length (pendingFor cid st') \<le> 1"
    using same fewer more by (elim disjE exE conjE) blast+
qed

lemma actAll_exclusive:
  assumes "\<forall>cid. length (pendingFor cid st) \<le> 1" and "actAll as st = Some st'"
  shows "\<forall>cid. length (pendingFor cid st') \<le> 1"
  using assms
proof (induction as arbitrary: st)
  case Nil
  then show ?case by simp
next
  case (Cons a as)
  then obtain s1 where s1: "act a st = Some s1" "actAll as s1 = Some st'"
    by (auto split: option.splits)
  from act_exclusive[OF Cons.prems(1) s1(1)] Cons.IH s1(2) show ?case by blast
qed

lemma act_keeps_pending:
  assumes "r \<in> set (pendingRequests st)" and "\<not> resolves (r_id r) a" and "act a st = Some st'"
  shows "r \<in> set (pendingRequests st')"
  using act_pending[OF assms(3)] assms(1,2) by auto

lemma createSpendRequest_blocked:
  assumes "getCurrentChild st = Some ch" and "pendingFor (cp_id ch) st \<noteq> []"
  shows "createSpendRequest e items st = Some (failure MsgAlreadyPending, st)"
  using assms(2) by (simp add: createSpendRequest_def assms(1) pendingFor_def Let_def)

lemma actAll_keeps_request:
  assumes "getCurrentChild st = Some ch" and "r \<in> set (pendingFor (cp_id ch) st)"
    and "\<forall>a \<in> set as. \<not> resolves (r_id r) a"
  shows "\<exists>st' ch'. actAll as st = Some st' \<and> getCurrentChild st' = Some ch' \<and>
           cp_id ch' = cp_id ch \<and> r \<in> set (pendingFor (cp_id ch) st')"
  using assms
proof (induction as arbitrary: st ch)
  case Nil
  then show ?case by simp
next
  case (Cons a as)
  from act_total[OF Cons.prems(1)] obtain s1 where s1: "act a st = Some s1" by blast
  from act_current_id[OF s1] Cons.prems(1)
  obtain c1 where c1: "getCurrentChild s1 = Some c1" "cp_id c1 = cp_id ch" by auto
  have "r \<in> set (pendingRequests st)" "r_childId r = cp_id ch" "r_status r = pending"
    using Cons.prems(2) by (simp_all add: pendingFor_def)
  moreover have "\<not> resolves (r_id r) a" using Cons.prems(3) by simp
  ultimately have "r \<in> set (pendingFor (cp_id c1) s1)"
    using act_keeps_pending[OF _ _ s1] c1(2) by (simp add: pendingFor_def)
  moreover have "\<forall>a \<in> set as. \<not> resolves (r_id r) a" using Cons.prems(3) by simp
  ultimately obtain st' ch' where "actAll as s1 = Some st'" "getCurrentChild st' = Some ch'"
    "cp_id ch' = cp_id c1" "r \<in> set (pendingFor (cp_id c1) st')"
    using Cons.IH[OF c1(1)] by blast
  then show ?case using s1 c1(2) by simp
qed

lemma sole_pending:
  assumes "length (pendingFor cid st) \<le> 1" and "r \<in> set (pendingFor cid st)"
  shows "pendingFor cid st = [r]"
  using assms by (cases "pendingFor cid st") auto

lemma pendingFor_after_filter:
  assumes "pendingRequests st' = filter (\<lambda>x. r_id x \<noteq> r_id r) (pendingRequests st)"
    and "pendingFor cid st = [r]"
  shows "pendingFor cid st' = []"
proof -
  have "pendingFor cid st' = filter (\<lambda>x. r_id x \<noteq> r_id r) (pendingFor cid st)"
    unfolding pendingFor_def assms(1) by (simp add: conj_commute)
  then show ?thesis by (simp add: assms(2))
qed

text \<open>
  \<^bold>\<open>C8.\<close> Four facts. (1) When the acting child has a pending request,
  \<open>createSpendRequest\<close> fails and returns the state unchanged, so nothing is created.
  (2) If every child has at most one pending request, then so it is after any run of
  actions. (3) If \<open>r\<close> is a pending request of the acting child and none of the actions
  \<open>as\<close> approves, denies or cancels \<open>r\<close>, then the run of \<open>as\<close> does not throw, and
  afterwards \<open>r\<close> is still pending, the acting child is still the child with that id,
  and \<open>createSpendRequest\<close> still fails without creating anything. (4) Cancelling or
  denying the one pending request of a child leaves that child with none.
  The actions are those of \<open>Action\<close>. The store's actions that change who the acting
  child is or wipe the state (\<^verbatim>\<open>switchChild\<close>, \<^verbatim>\<open>addChild\<close>, \<^verbatim>\<open>deleteChild\<close>,
  \<^verbatim>\<open>updateChild\<close>, \<^verbatim>\<open>resetAll\<close>) are not among them, nor are the view and lock
  switches, the editing of tasks and the acknowledgement of notifications, none of
  which writes \<^verbatim>\<open>pendingRequests\<close>.
\<close>

theorem request_exclusivity:
  "(getCurrentChild st = Some ch \<and> pendingFor (cp_id ch) st \<noteq> [] \<longrightarrow>
      createSpendRequest e items st = Some (failure MsgAlreadyPending, st)) \<and>
   ((\<forall>cid. length (pendingFor cid st) \<le> 1) \<longrightarrow>
      (\<forall>st'. actAll as st = Some st' \<longrightarrow> (\<forall>cid. length (pendingFor cid st') \<le> 1))) \<and>
   (getCurrentChild st = Some ch \<and> r \<in> set (pendingFor (cp_id ch) st) \<and>
    (\<forall>a \<in> set as. \<not> resolves (r_id r) a) \<longrightarrow>
      (\<exists>st' ch'. actAll as st = Some st' \<and> getCurrentChild st' = Some ch' \<and>
         cp_id ch' = cp_id ch \<and> r \<in> set (pendingFor (cp_id ch) st') \<and>
         createSpendRequest e items st' = Some (failure MsgAlreadyPending, st'))) \<and>
   ((\<forall>cid. length (pendingFor cid st) \<le> 1) \<and> r \<in> set (pendingFor cid st) \<longrightarrow>
      pendingFor cid (cancelSpendRequest (r_id r) st) = [] \<and>
      pendingFor cid (denyRequest e (r_id r) st) = [])"
proof (intro conjI impI allI)
  assume "getCurrentChild st = Some ch \<and> pendingFor (cp_id ch) st \<noteq> []"
  then show "createSpendRequest e items st = Some (failure MsgAlreadyPending, st)"
    using createSpendRequest_blocked by blast
next
  fix st' cid
  assume "\<forall>cid. length (pendingFor cid st) \<le> 1" and "actAll as st = Some st'"
  then show "length (pendingFor cid st') \<le> 1" using actAll_exclusive by blast
next
  assume h: "getCurrentChild st = Some ch \<and> r \<in> set (pendingFor (cp_id ch) st) \<and>
    (\<forall>a \<in> set as. \<not> resolves (r_id r) a)"
  then obtain st' ch' where k: "actAll as st = Some st'" "getCurrentChild st' = Some ch'"
    "cp_id ch' = cp_id ch" "r \<in> set (pendingFor (cp_id ch) st')"
    using actAll_keeps_request[of st ch r as] by blast
  then have "pendingFor (cp_id ch') st' \<noteq> []" by auto
  from createSpendRequest_blocked[OF k(2) this] k
  show "\<exists>st' ch'. actAll as st = Some st' \<and> getCurrentChild st' = Some ch' \<and>
         cp_id ch' = cp_id ch \<and> r \<in> set (pendingFor (cp_id ch) st') \<and>
         createSpendRequest e items st' = Some (failure MsgAlreadyPending, st')"
    by blast
next
  assume h: "(\<forall>cid. length (pendingFor cid st) \<le> 1) \<and> r \<in> set (pendingFor cid st)"
  then have sole: "pendingFor cid st = [r]" using sole_pending by blast
  show "pendingFor cid (cancelSpendRequest (r_id r) st) = []"
    by (rule pendingFor_after_filter[OF _ sole]) (simp add: cancelSpendRequest_def)
next
  assume h: "(\<forall>cid. length (pendingFor cid st) \<le> 1) \<and> r \<in> set (pendingFor cid st)"
  then have sole: "pendingFor cid st = [r]" using sole_pending by blast
  show "pendingFor cid (denyRequest e (r_id r) st) = []"
    by (rule pendingFor_after_filter[OF _ sole]) (rule pending_denyRequest)
qed

lemma demoPending_child: "getCurrentChild demoPending = Some demoChild"
  by (simp add: getCurrentChild_def demoPending_def demoState_def demoChild_def)

lemma demoPending_for:
  "pendingFor cid demoPending = (if cid = ''child-1'' then [demoRequest] else [])"
  by (simp add: pendingFor_def demoPending_def demoRequest_def)

theorem request_exclusivity_witness:
  "getCurrentChild demoPending = Some demoChild \<and>
   pendingFor (cp_id demoChild) demoPending = [demoRequest] \<and>
   createSpendRequest demoEnv [demoItem] demoPending =
     Some (failure MsgAlreadyPending, demoPending) \<and>
   (\<exists>st'. actAll [CompleteTask demoEnv ''task-2'', DenyRequest demoEnv ''req-7'',
               AddStrike demoEnv ''late''] demoPending = Some st' \<and>
      demoRequest \<in> set (pendingFor ''child-1'' st') \<and>
      length (pendingFor ''child-1'' st') \<le> 1 \<and>
      createSpendRequest demoEnv [demoItem] st' = Some (failure MsgAlreadyPending, st')) \<and>
   pendingFor ''child-1'' (cancelSpendRequest ''req-1'' demoPending) = [] \<and>
   pendingFor ''child-1'' (denyRequest demoEnv ''req-1'' demoPending) = []"
proof -
  let ?as = "[CompleteTask demoEnv ''task-2'', DenyRequest demoEnv ''req-7'',
               AddStrike demoEnv ''late'']"
  have id: "cp_id demoChild = ''child-1''" by (simp add: demoChild_def)
  have rid: "r_id demoRequest = ''req-1''" by (simp add: demoRequest_def)
  have p: "pendingFor (cp_id demoChild) demoPending = [demoRequest]"
    by (simp add: demoPending_for id)
  have inv: "\<forall>cid. length (pendingFor cid demoPending) \<le> 1"
    by (simp add: demoPending_for)
  have free: "\<forall>a \<in> set ?as. \<not> resolves (r_id demoRequest) a"
    by (simp add: rid)
  note T = request_exclusivity[where st = demoPending and ch = demoChild and e = demoEnv
      and items = "[demoItem]" and r = demoRequest and as = ?as and cid = "''child-1''"]
  have 1: "createSpendRequest demoEnv [demoItem] demoPending =
     Some (failure MsgAlreadyPending, demoPending)"
    using T demoPending_child p by simp
  obtain st' where 2: "actAll ?as demoPending = Some st'"
    "demoRequest \<in> set (pendingFor ''child-1'' st')"
    "createSpendRequest demoEnv [demoItem] st' = Some (failure MsgAlreadyPending, st')"
    using T demoPending_child p free unfolding id by auto
  have 3: "length (pendingFor ''child-1'' st') \<le> 1"
    using T inv 2(1) by blast
  have 4: "pendingFor ''child-1'' (cancelSpendRequest ''req-1'' demoPending) = [] \<and>
      pendingFor ''child-1'' (denyRequest demoEnv ''req-1'' demoPending) = []"
    using T inv p unfolding id rid by simp
  from demoPending_child p 1 2 3 4 show ?thesis by blast
qed

subsection \<open>Conservation of the currency in circulation\<close>

lemma map_update_absent:
  assumes "\<forall>c \<in> set cs. cp_id c \<noteq> k"
  shows "map (\<lambda>c. if cp_id c = k then f c else c) cs = cs"
  using assms by (induction cs) simp_all

lemma distinct_ids_head:
  assumes "distinct (map cp_id (c # cs))" and "x \<in> set cs"
  shows "cp_id x \<noteq> cp_id c"
proof -
  have "cp_id c \<notin> cp_id ` set cs" using assms(1) by simp
  moreover have "cp_id x \<in> cp_id ` set cs" using assms(2) by (rule imageI)
  ultimately show ?thesis by metis
qed

lemma sum_holdings_update:
  assumes "distinct (map cp_id cs)" and "ch \<in> set cs"
  shows "sum_list (map holdings (map (\<lambda>c. if cp_id c = cp_id ch then f c else c) cs)) =
         sum_list (map holdings cs) - holdings ch + holdings (f ch)"
  using assms
proof (induction cs)
  case Nil
  then show ?case by simp
next
  case (Cons c cs)
  show ?case
  proof (cases "c = ch")
    case True
    then have "\<forall>x \<in> set cs. cp_id x \<noteq> cp_id ch"
      using distinct_ids_head[OF Cons.prems(1)] by simp
    then have "map (\<lambda>c. if cp_id c = cp_id ch then f c else c) cs = cs"
      by (rule map_update_absent)
    then show ?thesis using True by simp
  next
    case False
    then have in_cs: "ch \<in> set cs" using Cons.prems(2) by simp
    then have "cp_id c \<noteq> cp_id ch"
      using distinct_ids_head[OF Cons.prems(1), of ch] by simp
    moreover have "distinct (map cp_id cs)" using Cons.prems(1) by simp
    ultimately show ?thesis using Cons.IH in_cs by simp
  qed
qed

lemma totalCurrency_update:
  assumes "childrenOk st" and "ch \<in> set (children st)"
    and "children st' = map (\<lambda>c. if cp_id c = cp_id ch then f c else c) (children st)"
    and "v_balance (vault st') + holdings (f ch) = v_balance (vault st) + holdings ch"
  shows "totalCurrency st' = totalCurrency st"
proof -
  have "distinct (map cp_id (children st))" using assms(1) by (simp add: childrenOk_def)
  from sum_holdings_update[OF this assms(2), of f] assms(4)
  show ?thesis by (simp add: totalCurrency_def assms(3))
qed

lemma childrenOk_current:
  assumes "childrenOk st"
  obtains ch where "getCurrentChild st = Some ch" and "ch \<in> set (children st)"
proof -
  from assms have "children st \<noteq> []" by (simp add: childrenOk_def)
  then have "\<exists>ch. getCurrentChild st = Some ch"
    unfolding getCurrentChild_def
    by (cases "children st"; cases "find (\<lambda>c. cp_id c = currentChildId st) (children st)")
       simp_all
  then obtain ch where "getCurrentChild st = Some ch" ..
  with getCurrentChild_in that show ?thesis by blast
qed

lemma act_childrenOk:
  assumes "childrenOk st" and "act a st = Some st'"
  shows "childrenOk st'"
proof -
  from act_ids[OF assms(2)] have "map cp_id (children st') = map cp_id (children st)" by simp
  moreover from this have "children st' = [] \<longleftrightarrow> children st = []"
    by (metis map_is_Nil_conv)
  ultimately show ?thesis using assms(1) by (simp add: childrenOk_def)
qed

lemma conserve_completeTask:
  assumes "childrenOk st" and "completeTask e taskId st = Some (res, st')"
  shows "totalCurrency st' = totalCurrency st"
proof -
  from assms(1) obtain ch where ch: "getCurrentChild st = Some ch" "ch \<in> set (children st)"
    by (rule childrenOk_current)
  show ?thesis
  proof (cases "find (\<lambda>t. t_id t = taskId) (tasks st)")
    case None
    then show ?thesis using assms(2) by (simp add: completeTask_missing)
  next
    case (Some task)
    show ?thesis
    proof (cases "\<not> t_isActive task \<or> strikeCountToday e ch st \<ge> MAX_STRIKES \<or>
             t_completions task \<ge> t_dailyMax task \<or> v_balance (vault st) < t_payout task")
      case True
      from completeTask_refused[OF ch(1) Some True] assms(2) have "st' = st" by auto
      then show ?thesis by simp
    next
      case False
      then have "st' = snd (the (completeTask e taskId st))" using assms(2) by simp
      also have "\<dots> =
          st\<lparr>tasks := map (\<lambda>t. if t_id t = taskId
                                 then t\<lparr>t_completions := t_completions t + 1\<rparr> else t) (tasks st),
             children := map (\<lambda>c. if cp_id c = cp_id ch
                                 then c\<lparr>cp_pendingEarnings := cp_pendingEarnings c + t_payout task\<rparr>
                                 else c) (children st),
             vault := (vault st)\<lparr>v_balance := v_balance (vault st) - t_payout task\<rparr>\<rparr>"
        using False completeTask_done[OF ch(1) Some, of e] by simp
      finally show ?thesis
        by (intro totalCurrency_update[OF assms(1) ch(2), where f = "\<lambda>c.
              c\<lparr>cp_pendingEarnings := cp_pendingEarnings c + t_payout task\<rparr>"])
           (simp_all add: holdings_def)
    qed
  qed
qed

lemma undoTaskCompletion_done:
  assumes "getCurrentChild st = Some ch"
    and "find (\<lambda>t. t_id t = taskId) (tasks st) = Some task" and "0 < t_completions task"
  shows "undoTaskCompletion taskId st =
    (succeeded MsgUndone,
     st\<lparr>tasks := map (\<lambda>t. if t_id t = taskId
                            then t\<lparr>t_completions := t_completions t - 1\<rparr> else t) (tasks st),
        children := map (\<lambda>c. if cp_id c = cp_id ch
                            then c\<lparr>cp_pendingEarnings :=
                                     max 0 (cp_pendingEarnings c - t_payout task)\<rparr>
                            else c) (children st),
        vault := (vault st)\<lparr>v_balance := min VAULT_MAX (v_balance (vault st) + t_payout task)\<rparr>\<rparr>)"
  using assms(3) by (simp add: undoTaskCompletion_def assms(1,2) Let_def isChild_Some)

lemma conserve_undoTaskCompletion:
  assumes "childrenOk st" and "clampFree (UndoTaskCompletion taskId) st"
  shows "totalCurrency (snd (undoTaskCompletion taskId st)) = totalCurrency st"
proof -
  from assms(1) obtain ch where ch: "getCurrentChild st = Some ch" "ch \<in> set (children st)"
    by (rule childrenOk_current)
  show ?thesis
  proof (cases "find (\<lambda>t. t_id t = taskId) (tasks st)")
    case None
    then show ?thesis by (simp add: undoTaskCompletion_def)
  next
    case (Some task)
    show ?thesis
    proof (cases "0 < t_completions task")
      case False
      then show ?thesis by (simp add: undoTaskCompletion_def Some)
    next
      case True
      with assms(2) have free: "v_balance (vault st) + t_payout task \<le> VAULT_MAX"
        "t_payout task \<le> cp_pendingEarnings ch"
        by (simp_all add: Some ch(1))
      show ?thesis
        unfolding undoTaskCompletion_done[OF ch(1) Some True] snd_conv
        by (rule totalCurrency_update[OF assms(1) ch(2), where f = "\<lambda>c.
              c\<lparr>cp_pendingEarnings := max 0 (cp_pendingEarnings c - t_payout task)\<rparr>"])
           (use free in \<open>simp_all add: holdings_def\<close>)
    qed
  qed
qed

lemma conserve_addStrike:
  assumes "childrenOk st" and "clampFree (AddStrike e reason) st"
    and "addStrike e reason st = Some (res, st')"
  shows "totalCurrency st' = totalCurrency st"
proof -
  from assms(1) obtain ch where ch: "getCurrentChild st = Some ch" "ch \<in> set (children st)"
    by (rule childrenOk_current)
  consider (cap) "strikeCountToday e ch st \<ge> MAX_STRIKES"
    | (reach) "strikeCountToday e ch st + 1 = MAX_STRIKES"
    | (below) "strikeCountToday e ch st + 1 < MAX_STRIKES"
    by linarith
  then show ?thesis
  proof cases
    case cap
    then have "st' = st" using assms(3) addStrike_refused[OF ch(1) cap] by simp
    then show ?thesis by simp
  next
    case reach
    with assms(2) have free: "v_balance (vault st) + cp_pendingEarnings ch \<le> VAULT_MAX"
      by (simp add: ch(1))
    from assms(3) have "st' = snd (the (addStrike e reason st))" by simp
    then show ?thesis
      unfolding addStrike_reaching[OF ch(1) reach]
      by (intro totalCurrency_update[OF assms(1) ch(2), where f = "\<lambda>c.
            c\<lparr>cp_pendingEarnings := 0\<rparr>"])
         (use free in \<open>simp_all add: holdings_def\<close>)
  next
    case below
    from assms(3) have "st' = snd (the (addStrike e reason st))" by simp
    then show ?thesis
      unfolding addStrike_below[OF ch(1) below] by (simp add: totalCurrency_def)
  qed
qed

lemma conserve_denyRequest: "totalCurrency (denyRequest e rid st) = totalCurrency st"
  by (simp add: denyRequest_def totalCurrency_def Let_def split: option.splits)

lemma conserve_approveRequest:
  assumes "childrenOk st" and "clampFree (ApproveRequest e rid) st"
  shows "totalCurrency (snd (approveRequest e rid st)) = totalCurrency st"
proof (cases "find (\<lambda>r. r_id r = rid) (pendingRequests st)")
  case None
  then show ?thesis by (simp add: approveRequest_def)
next
  case req: (Some request)
  show ?thesis
  proof (cases "find (\<lambda>c. cp_id c = r_childId request) (children st)")
    case None
    then show ?thesis by (simp add: approveRequest_def req)
  next
    case chd: (Some ch)
    then have mem: "ch \<in> set (children st)" by (auto simp: find_Some_iff)
    show ?thesis
    proof (cases "r_totalCost request > cp_balance ch")
      case True
      then show ?thesis by (simp add: approveRequest_def req chd conserve_denyRequest)
    next
      case False
      then have le: "r_totalCost request \<le> cp_balance ch" by simp
      with assms(2) have free: "v_balance (vault st) + r_totalCost request \<le> VAULT_MAX"
        by (simp add: req chd)
      show ?thesis
        unfolding approveRequest_done[OF req chd le] snd_conv
        by (rule totalCurrency_update[OF assms(1) mem, where f = "\<lambda>c.
              c\<lparr>cp_balance := cp_balance c - r_totalCost request,
                cp_totalSpent := cp_totalSpent c + r_totalCost request\<rparr>"])
           (use free in \<open>simp_all add: holdings_def\<close>)
    qed
  qed
qed


lemma act_conserve:
  assumes "childrenOk st" and "isLedgerAction a" and "clampFree a st" and "act a st = Some st'"
  shows "totalCurrency st' = totalCurrency st"
proof (cases a)
  case (CompleteTask e taskId)
  with assms(4) obtain res where "completeTask e taskId st = Some (res, st')" by auto
  then show ?thesis by (rule conserve_completeTask[OF assms(1)])
next
  case (UndoTaskCompletion taskId)
  then show ?thesis using assms conserve_undoTaskCompletion by auto
next
  case (AddStrike e reason)
  with assms(4) obtain res where "addStrike e reason st = Some (res, st')" by auto
  then show ?thesis using conserve_addStrike[OF assms(1)] assms(3) AddStrike by blast
next
  case (ApproveRequest e rid)
  then show ?thesis using assms conserve_approveRequest by auto
next
  case (DenyRequest e rid)
  then show ?thesis using assms conserve_denyRequest by auto
qed (use assms(2) in simp_all)

text \<open>
  \<^bold>\<open>C1\<close>, as the code has it. Start in a state with at least one child and pairwise
  distinct child ids, and run any sequence of \<open>completeTask\<close>, \<open>undoTaskCompletion\<close>,
  \<open>addStrike\<close>, \<open>approveRequest\<close> and \<open>denyRequest\<close> during which no clamp takes effect:
  every undo that goes through finds the payout within the acting child's pending
  earnings and within the room left in the vault, and every forfeiture and every
  approval finds room in the vault for what it returns. Then the run does not throw and
  the vault balance plus the balance, savings and pending earnings of all children is
  the same after the run as before.
\<close>

theorem conservation_clamp_free:
  assumes "childrenOk st" and "\<forall>a \<in> set as. isLedgerAction a" and "clampFreeRun as st"
  shows "\<exists>st'. actAll as st = Some st' \<and> totalCurrency st' = totalCurrency st"
  using assms
proof (induction as arbitrary: st)
  case Nil
  then show ?case by simp
next
  case (Cons a as)
  from Cons.prems(1) obtain ch where "getCurrentChild st = Some ch"
    by (rule childrenOk_current)
  from act_total[OF this] obtain s1 where s1: "act a st = Some s1" by blast
  have led: "isLedgerAction a" and free: "clampFree a st" and rest: "clampFreeRun as s1"
    using Cons.prems(2,3) s1 by simp_all
  have "totalCurrency s1 = totalCurrency st" by (rule act_conserve[OF Cons.prems(1) led free s1])
  moreover have "childrenOk s1" by (rule act_childrenOk[OF Cons.prems(1) s1])
  moreover have "\<forall>a \<in> set as. isLedgerAction a" using Cons.prems(2) by simp
  ultimately show ?case using Cons.IH[OF _ _ rest] s1 by auto
qed

lemmas demo_eval =
  completeTask_def undoTaskCompletion_def addStrike_def approveRequest_def denyRequest_def
  getCurrentChild_def todayStrikeCount_def isChild_def demo_today Let_def
  demoState_def demoPending_def demoChild_def demoTask_def demoRequest_def
  MAX_STRIKES_def VAULT_MAX_def failure_def succeeded_def

text \<open>
  Without the proviso the sum is not kept. The child earns 5 (vault 700 to 695), three
  strikes forfeit the 5 back to the vault (700), and undoing the completion then finds
  pending earnings of 0, which stay at 0, while the vault is credited 5 once more: the
  sum goes from 1000 to 1005.
\<close>

theorem conservation_counterexample:
  "childrenOk demoState \<and>
   list_all isLedgerAction
     [CompleteTask demoEnv ''task-2'', AddStrike demoEnv ''one'', AddStrike demoEnv ''two'',
      AddStrike demoEnv ''three'', UndoTaskCompletion ''task-2''] \<and>
   totalCurrency demoState = 1000 \<and>
   map_option totalCurrency
     (actAll [CompleteTask demoEnv ''task-2'', AddStrike demoEnv ''one'', AddStrike demoEnv ''two'',
              AddStrike demoEnv ''three'', UndoTaskCompletion ''task-2''] demoState) = Some 1005"
  by (simp add: demo_eval childrenOk_def totalCurrency_def holdings_def)

theorem conservation_clamp_free_witness:
  "childrenOk demoPending \<and>
   clampFreeRun [CompleteTask demoEnv ''task-2'', UndoTaskCompletion ''task-2'',
                 ApproveRequest demoEnv ''req-1'', DenyRequest demoEnv ''req-1''] demoPending \<and>
   totalCurrency demoPending = 1000 \<and>
   (\<exists>st'. actAll [CompleteTask demoEnv ''task-2'', UndoTaskCompletion ''task-2'',
                  ApproveRequest demoEnv ''req-1'', DenyRequest demoEnv ''req-1''] demoPending =
             Some st' \<and>
          totalCurrency st' = 1000)"
proof -
  let ?as = "[CompleteTask demoEnv ''task-2'', UndoTaskCompletion ''task-2'',
                 ApproveRequest demoEnv ''req-1'', DenyRequest demoEnv ''req-1'']"
  have ok: "childrenOk demoPending"
    by (simp add: childrenOk_def demoPending_def demoState_def)
  have led: "\<forall>a \<in> set ?as. isLedgerAction a" by simp
  have free: "clampFreeRun ?as demoPending"
    by (simp add: demo_eval strikeCountToday_def)
  have t: "totalCurrency demoPending = 1000"
    by (simp add: totalCurrency_def holdings_def demoPending_def demoState_def demoChild_def)
  from conservation_clamp_free[OF ok led free] ok free t show ?thesis by simp
qed

end
